theory Spec2Isabelle
  imports Main "HOL-Library.Sublist" "HOL-Library.Multiset" "HOL-Library.Word"
begin

section \<open>Text, bytes and the character tables of the runtime\<close>

text \<open>
  A Python \<open>str\<close> is a sequence of Unicode code points, so text is a list of naturals
  (the en dash of the date splitter is code point 8211 and does not fit a byte).
  \<open>asc\<close> writes an ASCII literal as such a list. Dictionary keys of the section map
  (\<open>"header"\<close>, \<open>"experience"\<close>, ...) are ASCII identifiers and stay of type \<open>string\<close>.
\<close>

type_synonym ustr = "nat list"
type_synonym bytes = "8 word list"

definition asc :: "string \<Rightarrow> ustr" where
  "asc s = map of_char s"

text \<open>
  What \<open>str.strip\<close>, \<open>str.splitlines\<close>, \<open>str.lower\<close> and the classes \<open>\s\<close>, \<open>\w\<close>,
  \<open>\d\<close>, \<open>\b\<close> and the flag \<open>re.IGNORECASE\<close> of the \<open>re\<close> module do depends on the
  Unicode character database of the interpreter, which is no part of the repository.
  The tables are a parameter of every function that reads them:
  \<^item> \<open>u_space c\<close>: \<open>c\<close> is whitespace (\<open>str.isspace\<close>, the class \<open>\s\<close>);
  \<^item> \<open>u_linebreak c\<close>: \<open>str.splitlines\<close> breaks a line at \<open>c\<close>;
  \<^item> \<open>u_word c\<close>: \<open>c\<close> is in the class \<open>\w\<close>;
  \<^item> \<open>u_digit c\<close>: \<open>c\<close> is in the class \<open>\d\<close>;
  \<^item> \<open>u_lower s\<close>: the value of \<open>s.lower()\<close>;
  \<^item> \<open>u_ieq p c\<close>: under \<open>re.IGNORECASE\<close> the pattern character \<open>p\<close> matches the
    text character \<open>c\<close>.
\<close>

record unicode =
  u_space :: "nat \<Rightarrow> bool"
  u_linebreak :: "nat \<Rightarrow> bool"
  u_word :: "nat \<Rightarrow> bool"
  u_digit :: "nat \<Rightarrow> bool"
  u_lower :: "ustr \<Rightarrow> ustr"
  u_ieq :: "nat \<Rightarrow> nat \<Rightarrow> bool"

text \<open>
  The tables of CPython on the code points below 256 (Latin-1). Above 255 this
  instance classifies every code point as a caseless symbol, which is right for the
  en dash, the one such code point the source mentions. It is the instance at which
  concrete inputs are evaluated.
\<close>

definition latin1_lower :: "nat \<Rightarrow> nat" where
  "latin1_lower c =
     (if (65 \<le> c \<and> c \<le> 90) \<or> (192 \<le> c \<and> c \<le> 214) \<or> (216 \<le> c \<and> c \<le> 222)
      then c + 32 else c)"

definition latin1 :: unicode where
  "latin1 =
     \<lparr> u_space = (\<lambda>c. c \<in> set [9, 10, 11, 12, 13, 28, 29, 30, 31, 32, 133, 160]),
       u_linebreak = (\<lambda>c. c \<in> set [10, 11, 12, 13, 28, 29, 30, 133]),
       u_word = (\<lambda>c. (48 \<le> c \<and> c \<le> 57) \<or> (65 \<le> c \<and> c \<le> 90) \<or> c = 95
                     \<or> (97 \<le> c \<and> c \<le> 122)
                     \<or> c \<in> set [170, 178, 179, 181, 185, 186, 188, 189, 190]
                     \<or> (192 \<le> c \<and> c \<le> 214) \<or> (216 \<le> c \<and> c \<le> 246)
                     \<or> (248 \<le> c \<and> c \<le> 255)),
       u_digit = (\<lambda>c. 48 \<le> c \<and> c \<le> 57),
       u_lower = map latin1_lower,
       u_ieq = (\<lambda>p c. latin1_lower p = latin1_lower c) \<rparr>"

section \<open>String methods\<close>

text \<open>\<open>s.strip()\<close> and \<open>s.strip(chars)\<close>: both ends, every character of the set.\<close>

definition strip :: "unicode \<Rightarrow> ustr \<Rightarrow> ustr" where
  "strip U s = rev (dropWhile (u_space U) (rev (dropWhile (u_space U) s)))"

definition strip_chars :: "ustr \<Rightarrow> ustr \<Rightarrow> ustr" where
  "strip_chars cs s =
     rev (dropWhile (\<lambda>c. c \<in> set cs) (rev (dropWhile (\<lambda>c. c \<in> set cs) s)))"

text \<open>\<open>s.split(sep)\<close> for a separator of one character: always at least one piece.\<close>

fun split_acc :: "nat \<Rightarrow> ustr \<Rightarrow> ustr \<Rightarrow> ustr list" where
  "split_acc sep cur [] = [cur]"
| "split_acc sep cur (c # cs) =
     (if c = sep then cur # split_acc sep [] cs else split_acc sep (cur @ [c]) cs)"

definition split_char :: "nat \<Rightarrow> ustr \<Rightarrow> ustr list" where
  "split_char sep s = split_acc sep [] s"

text \<open>\<open>s.split(sep, maxsplit=1)\<close>: cut at the first separator only.\<close>

definition split_once :: "nat \<Rightarrow> ustr \<Rightarrow> ustr list" where
  "split_once sep s =
     (if sep \<in> set s
      then [takeWhile (\<lambda>c. c \<noteq> sep) s, tl (dropWhile (\<lambda>c. c \<noteq> sep) s)]
      else [s])"

text \<open>\<open>sep.join(parts)\<close>.\<close>

fun join :: "ustr \<Rightarrow> ustr list \<Rightarrow> ustr" where
  "join sep [] = []"
| "join sep [x] = x"
| "join sep (x # y # ys) = x @ sep @ join sep (y # ys)"

text \<open>\<open>sub in s\<close>: \<open>sub\<close> occurs in \<open>s\<close> as a contiguous substring.\<close>

fun contains :: "ustr \<Rightarrow> ustr \<Rightarrow> bool" where
  "contains sub [] = (sub = [])"
| "contains sub (c # cs) = (prefix sub (c # cs) \<or> contains sub cs)"

text \<open>
  \<open>s.splitlines()\<close>: a carriage return followed by a line feed is one break, every
  other line-break character is a break of its own, and no empty last line is
  produced for a text that ends in a break.
\<close>

fun splitlines_acc :: "unicode \<Rightarrow> ustr \<Rightarrow> ustr \<Rightarrow> ustr list" where
  "splitlines_acc U cur [] = (if cur = [] then [] else [cur])"
| "splitlines_acc U cur [c] =
     (if c = 13 \<or> u_linebreak U c then [cur] else [cur @ [c]])"
| "splitlines_acc U cur (c # d # cs) =
     (if c = 13 \<and> d = 10 then cur # splitlines_acc U [] cs
      else if c = 13 \<or> u_linebreak U c then cur # splitlines_acc U [] (d # cs)
      else splitlines_acc U (cur @ [c]) (d # cs))"

definition splitlines :: "unicode \<Rightarrow> ustr \<Rightarrow> ustr list" where
  "splitlines U s = splitlines_acc U [] s"

section \<open>Regular expressions\<close>

text \<open>
  The patterns of the source use literals, character classes, greedy repetition of a
  class (\<open>+\<close>, \<open>*\<close>, \<open>{m}\<close>, \<open>{m,n}\<close>), greedy optional groups, alternation and the word
  boundary \<open>\b\<close>. \<open>rx_ends\<close> is the backtracking matcher of \<open>re\<close>: from a position
  (the character before it, if any, and the rest of the text) it lists the positions
  where a match of the pattern can end, in the order in which backtracking tries
  them, so the head of the list is the match that \<open>re\<close> reports.
\<close>

datatype rx =
    Lit ustr
  | ILit ustr
  | Cls "nat \<Rightarrow> bool"
  | Rep nat "nat option" "nat \<Rightarrow> bool"
  | WordB
  | Opt rx
  | Seq rx rx
  | Alt rx rx

type_synonym pos = "nat option \<times> ustr"

fun rep_ends :: "nat \<Rightarrow> nat option \<Rightarrow> (nat \<Rightarrow> bool) \<Rightarrow> pos \<Rightarrow> pos list" where
  "rep_ends lo hi p (prev, []) = (if lo = 0 then [(prev, [])] else [])"
| "rep_ends lo hi p (prev, c # t) =
     (if p c \<and> hi \<noteq> Some 0
      then rep_ends (lo - 1) (map_option (\<lambda>h. h - 1) hi) p (Some c, t) else [])
     @ (if lo = 0 then [(prev, c # t)] else [])"

definition word_char :: "unicode \<Rightarrow> nat option \<Rightarrow> bool" where
  "word_char U c = (case c of None \<Rightarrow> False | Some x \<Rightarrow> u_word U x)"

definition at_boundary :: "unicode \<Rightarrow> pos \<Rightarrow> bool" where
  "at_boundary U st =
     (word_char U (fst st) \<noteq> word_char U (case snd st of [] \<Rightarrow> None | c # _ \<Rightarrow> Some c))"

fun rx_ends :: "unicode \<Rightarrow> rx \<Rightarrow> pos \<Rightarrow> pos list" where
  "rx_ends U (Lit l) (prev, s) =
     (if prefix l s then [(if l = [] then prev else Some (last l), drop (length l) s)]
      else [])"
| "rx_ends U (ILit l) (prev, s) =
     (if length l \<le> length s \<and> list_all2 (u_ieq U) l (take (length l) s)
      then [(if l = [] then prev else Some (last (take (length l) s)), drop (length l) s)]
      else [])"
| "rx_ends U (Cls p) (prev, s) =
     (case s of [] \<Rightarrow> [] | c # t \<Rightarrow> if p c then [(Some c, t)] else [])"
| "rx_ends U (Rep lo hi p) (prev, s) = rep_ends lo hi p (prev, s)"
| "rx_ends U WordB (prev, s) = (if at_boundary U (prev, s) then [(prev, s)] else [])"
| "rx_ends U (Opt r) (prev, s) = rx_ends U r (prev, s) @ [(prev, s)]"
| "rx_ends U (Seq a b) (prev, s) = concat (map (rx_ends U b) (rx_ends U a (prev, s)))"
| "rx_ends U (Alt a b) (prev, s) = rx_ends U a (prev, s) @ rx_ends U b (prev, s)"

text \<open>
  \<open>re.search(pattern, s)\<close>: the first start position, from the left, at which the
  pattern matches; the value is the matched text (\<open>group(0)\<close>), or \<open>None\<close>.
\<close>

fun search_from :: "unicode \<Rightarrow> rx \<Rightarrow> nat option \<Rightarrow> ustr \<Rightarrow> ustr option" where
  "search_from U r prev [] =
     (case rx_ends U r (prev, []) of [] \<Rightarrow> None | _ # _ \<Rightarrow> Some [])"
| "search_from U r prev (c # t) =
     (case rx_ends U r (prev, c # t) of
        [] \<Rightarrow> search_from U r (Some c) t
      | (_, rest) # _ \<Rightarrow> Some (take (Suc (length t) - length rest) (c # t)))"

definition re_search :: "unicode \<Rightarrow> rx \<Rightarrow> ustr \<Rightarrow> ustr option" where
  "re_search U r s = search_from U r None s"

text \<open>
  \<open>re.split(pattern, s)\<close> for a pattern without groups: the pieces between the
  successive leftmost matches. Every pattern the source splits on matches at least one
  character; a match of no character is passed over here (CPython would cut there).
\<close>

function split_from :: "unicode \<Rightarrow> rx \<Rightarrow> nat option \<Rightarrow> ustr \<Rightarrow> ustr \<Rightarrow> ustr list" where
  "split_from U r prev cur [] = [cur]"
| "split_from U r prev cur (c # t) =
     (case rx_ends U r (prev, c # t) of
        [] \<Rightarrow> split_from U r (Some c) (cur @ [c]) t
      | (prev', rest) # _ \<Rightarrow>
          if length rest < Suc (length t) then cur # split_from U r prev' [] rest
          else split_from U r (Some c) (cur @ [c]) t)"
  by pat_completeness auto
termination
  by (relation "measure (\<lambda>(U, r, prev, cur, s). length s)") auto

definition re_split :: "unicode \<Rightarrow> rx \<Rightarrow> ustr \<Rightarrow> ustr list" where
  "re_split U r s = split_from U r None [] s"

section \<open>The data model\<close>

text \<open>
  The classes of \<open>models.py\<close>. An optional field is an \<open>option\<close>; a field the parser
  never sets keeps the default \<open>None\<close> of its declaration. The fields \<open>start_date\<close>,
  \<open>end_date\<close> and \<open>summary\<close> exist in both \<open>ExperienceItem\<close> and \<open>EducationItem\<close>; those
  of \<open>EducationItem\<close> carry the prefix \<open>edu_\<close> here.
\<close>

record contact_info =
  full_name :: ustr
  email :: "ustr option"
  phone :: "ustr option"
  location :: "ustr option"
  website :: "ustr option"
  linkedin :: "ustr option"

record experience_item =
  role :: ustr
  company :: "ustr option"
  start_date :: "ustr option"
  end_date :: "ustr option"
  summary :: "ustr option"
  highlights :: "ustr list"

record education_item =
  degree :: ustr
  institution :: "ustr option"
  edu_start_date :: "ustr option"
  edu_end_date :: "ustr option"
  edu_summary :: "ustr option"

record project_item =
  name :: ustr
  description :: "ustr option"
  link :: "ustr option"

record resume_data =
  contact :: contact_info
  professional_summary :: "ustr option"
  experiences :: "experience_item list"
  educations :: "education_item list"
  skills :: "ustr list"
  projects :: "project_item list"

text \<open>
  The exceptions the parser can raise: the \<open>ValueError\<close> of \<open>parse_resume\<close> for a file
  name of no accepted extension, and the \<open>IndexError\<close> of a subscript out of range.
\<close>

datatype error = UnsupportedFormat | IndexError

section \<open>The section keywords\<close>

text \<open>
  The module-level dictionary \<open>SECTION_KEYWORDS\<close>, in its declared order (a Python
  dictionary iterates in insertion order). The code points above 127 are 234 (e with
  circumflex), 243 (o with acute), 231 (c with cedilla), 227 (a with tilde) and 245
  (o with tilde).
\<close>

type_synonym keyword_table = "(string \<times> ustr list) list"

definition SECTION_KEYWORDS :: keyword_table where
  "SECTION_KEYWORDS =
     [(''experience'',
         [asc ''experience'',
          asc ''experi'' @ [234] @ asc ''ncia'',
          asc ''experiencia'',
          asc ''work history'',
          asc ''hist'' @ [243] @ asc ''rico profissional'',
          asc ''trajet'' @ [243] @ asc ''ria'',
          asc ''carreira'']),
      (''education'',
         [asc ''education'',
          asc ''forma'' @ [231, 227] @ asc ''o'',
          asc ''formacao'',
          asc ''forma'' @ [231, 227] @ asc ''o acad'' @ [234] @ asc ''mica'',
          asc ''formacao academica'',
          asc ''academic'',
          asc ''educa'' @ [231, 227] @ asc ''o'',
          asc ''educacao'']),
      (''skills'',
         [asc ''skills'', asc ''compet'' @ [234] @ asc ''ncias'', asc ''competencias'',
          asc ''habilidades'']),
      (''projects'',
         [asc ''projects'', asc ''projetos'', asc ''realiza'' @ [231, 245] @ asc ''es'']),
      (''summary'',
         [asc ''summary'', asc ''resumo'', asc ''resumo profissional'', asc ''perfil'',
          asc ''objetivo''])]"

section \<open>Line normalizer and section segmenter\<close>

definition normalize_lines :: "unicode \<Rightarrow> ustr \<Rightarrow> ustr list" where
  "normalize_lines U text = filter (\<lambda>line. line \<noteq> []) (map (strip U) (splitlines U text))"

text \<open>
  \<open>_detect_section\<close>: the pattern is \<open>\b\<close>, the escaped keyword (a literal), \<open>\b\<close>,
  searched in the lower-cased line; the loop over the dictionary returns at the first
  section one of whose keywords is found.
\<close>

definition keyword_rx :: "ustr \<Rightarrow> rx" where
  "keyword_rx keyword = Seq WordB (Seq (Lit keyword) WordB)"

fun detect_loop :: "unicode \<Rightarrow> ustr \<Rightarrow> keyword_table \<Rightarrow> string option" where
  "detect_loop U normalized [] = None"
| "detect_loop U normalized ((section, keywords) # remaining) =
     (if list_ex (\<lambda>keyword. re_search U (keyword_rx keyword) normalized \<noteq> None) keywords
      then Some section
      else detect_loop U normalized remaining)"

definition detect_section :: "unicode \<Rightarrow> keyword_table \<Rightarrow> ustr \<Rightarrow> string option" where
  "detect_section U kw line = detect_loop U (u_lower U line) kw"

text \<open>
  \<open>_split_sections\<close>: the dictionary of buckets is a map from keys to line lists. The
  test \<open>if detected:\<close> is false for \<open>None\<close> and for the empty string;
  \<open>sections.setdefault(current, []).append(line)\<close> appends to the bucket of the current
  key, creating it when it is missing.
\<close>

type_synonym sections = "string \<rightharpoonup> ustr list"

definition append_line :: "sections \<Rightarrow> string \<Rightarrow> ustr \<Rightarrow> sections" where
  "append_line secs current line =
     secs(current \<mapsto> (case secs current of None \<Rightarrow> [] | Some bucket \<Rightarrow> bucket) @ [line])"

fun split_loop :: "unicode \<Rightarrow> keyword_table \<Rightarrow> string \<Rightarrow> sections \<Rightarrow> ustr list \<Rightarrow> sections" where
  "split_loop U kw current secs [] = secs"
| "split_loop U kw current secs (line # lines) =
     (case detect_section U kw line of
        None \<Rightarrow> split_loop U kw current (append_line secs current line) lines
      | Some detected \<Rightarrow>
          if detected \<noteq> [] then split_loop U kw detected secs lines
          else split_loop U kw current (append_line secs current line) lines)"

definition initial_sections :: "keyword_table \<Rightarrow> sections" where
  "initial_sections kw = (map_of (map (\<lambda>(key, _). (key, [])) kw))(''header'' \<mapsto> [])"

definition split_sections :: "unicode \<Rightarrow> keyword_table \<Rightarrow> ustr list \<Rightarrow> sections" where
  "split_sections U kw lines = split_loop U kw ''header'' (initial_sections kw) lines"

text \<open>\<open>sections.get(key, [])\<close>.\<close>

definition get_section :: "sections \<Rightarrow> string \<Rightarrow> ustr list" where
  "get_section secs key = (case secs key of None \<Rightarrow> [] | Some bucket \<Rightarrow> bucket)"

section \<open>Contact extractor\<close>

text \<open>
  The four patterns of \<open>_extract_contact\<close>:
  \<^verbatim>\<open>[\w\.\-+]+@[\w\-]+\.[\w\.-]+\<close>,
  \<^verbatim>\<open>(?:\+?\d{1,3}[\s-]?)?(?:\(?\d{2,3}\)?[\s-]?)?\d{4,5}[\s-]?\d{4}\<close>,
  \<^verbatim>\<open>linkedin\.com/[^\s]+\<close> (ignoring case) and \<^verbatim>\<open>https?://[^\s]+\<close>.
\<close>

definition email_rx :: "unicode \<Rightarrow> rx" where
  "email_rx U =
     Seq (Rep 1 None (\<lambda>c. u_word U c \<or> c = 46 \<or> c = 45 \<or> c = 43))
    (Seq (Lit (asc ''@''))
    (Seq (Rep 1 None (\<lambda>c. u_word U c \<or> c = 45))
    (Seq (Lit (asc ''.''))
         (Rep 1 None (\<lambda>c. u_word U c \<or> c = 46 \<or> c = 45)))))"

definition phone_rx :: "unicode \<Rightarrow> rx" where
  "phone_rx U =
     Seq (Opt (Seq (Opt (Lit (asc ''+'')))
              (Seq (Rep 1 (Some 3) (u_digit U))
                   (Opt (Cls (\<lambda>c. u_space U c \<or> c = 45))))))
    (Seq (Opt (Seq (Opt (Lit (asc ''('')))
              (Seq (Rep 2 (Some 3) (u_digit U))
              (Seq (Opt (Lit (asc '')'')))
                   (Opt (Cls (\<lambda>c. u_space U c \<or> c = 45)))))))
    (Seq (Rep 4 (Some 5) (u_digit U))
    (Seq (Opt (Cls (\<lambda>c. u_space U c \<or> c = 45)))
         (Rep 4 (Some 4) (u_digit U)))))"

definition linkedin_rx :: "unicode \<Rightarrow> rx" where
  "linkedin_rx U = Seq (ILit (asc ''linkedin.com/'')) (Rep 1 None (\<lambda>c. \<not> u_space U c))"

definition url_rx :: "unicode \<Rightarrow> rx" where
  "url_rx U =
     Seq (Lit (asc ''http''))
    (Seq (Opt (Lit (asc ''s'')))
    (Seq (Lit (asc ''://''))
         (Rep 1 None (\<lambda>c. \<not> u_space U c))))"

text \<open>
  The placeholder name of an empty header, \<open>"Nome nao identificado"\<close> with code point
  227 (a with tilde) for the first \<open>a\<close> of its second word.
\<close>

definition no_name :: ustr where
  "no_name = asc ''Nome n'' @ [227] @ asc ''o identificado''"

fun extract_contact :: "unicode \<Rightarrow> ustr list \<Rightarrow> contact_info" where
  "extract_contact U [] =
     \<lparr> full_name = no_name, email = None, phone = None, location = None,
       website = None, linkedin = None \<rparr>"
| "extract_contact U (first # others) =
     (let contact_details = (if others \<noteq> [] then join (asc '' '') others else []);
          location_match =
            (if 44 \<in> set contact_details
             then (case rev (map (strip U)
                               (filter (\<lambda>part. length (strip U part) > 2)
                                  (split_char 44 contact_details))) of
                     [] \<Rightarrow> None
                   | part # _ \<Rightarrow> Some part)
             else None)
      in \<lparr> full_name = first,
           email = re_search U (email_rx U) contact_details,
           phone = re_search U (phone_rx U) contact_details,
           location = location_match,
           website = re_search U (url_rx U) contact_details,
           linkedin = re_search U (linkedin_rx U) contact_details \<rparr>)"

section \<open>Experience extractor\<close>

text \<open>
  The date pattern \<^verbatim>\<open>(\d{4}|\w+\s\d{4}).*(\d{4}|presente|atual)\<close>, ignoring case
  (\<open>.\<close> is every character but the line feed), and the splitter \<^verbatim>\<open>-|\<close> en dash.
\<close>

definition date_pattern :: "unicode \<Rightarrow> rx" where
  "date_pattern U =
     Seq (Alt (Rep 4 (Some 4) (u_digit U))
              (Seq (Rep 1 None (u_word U))
              (Seq (Cls (u_space U))
                   (Rep 4 (Some 4) (u_digit U)))))
    (Seq (Rep 0 None (\<lambda>c. c \<noteq> 10))
         (Alt (Rep 4 (Some 4) (u_digit U))
         (Alt (ILit (asc ''presente''))
              (ILit (asc ''atual'')))))"

definition dash_rx :: rx where
  "dash_rx = Alt (Lit (asc ''-'')) (Lit [8211])"

text \<open>
  \<open>_experience_from_block\<close>: \<open>lines[0]\<close> raises \<open>IndexError\<close> on an empty block. The
  header is cut at its first hyphen when it has one; a date found in the header gives
  the two dates only when the splitter cuts its text into exactly two pieces, and in
  every case removes the lines that contain the date text.
\<close>

fun experience_from_block :: "unicode \<Rightarrow> ustr list \<Rightarrow> error + experience_item" where
  "experience_from_block U [] = Inl IndexError"
| "experience_from_block U (header # summary_lines) =
     (let date_match = re_search U (date_pattern U) header;
          (company0, role0) =
            (if 45 \<in> set header
             then (case map (strip U) (split_once 45 header) of
                     [left, right] \<Rightarrow> (Some left, right)
                   | _ \<Rightarrow> (None, header))
             else (None, header));
          (start0, end0, kept) =
            (case date_match of
               None \<Rightarrow> (None, None, summary_lines)
             | Some date_text \<Rightarrow>
                 (let kept_lines = filter (\<lambda>line. \<not> contains date_text line) summary_lines
                  in case re_split U dash_rx date_text of
                       [a, b] \<Rightarrow> (Some (strip U a), Some (strip U b), kept_lines)
                     | _ \<Rightarrow> (None, None, kept_lines)))
      in Inr \<lparr> role = strip U role0,
               company = company0,
               start_date = start0,
               end_date = end0,
               summary = None,
               highlights = map (strip_chars (asc ''- ''))
                                (filter (\<lambda>line. strip U line \<noteq> []) kept) \<rparr>)"

text \<open>
  \<open>_parse_experience\<close>: the loop over \<open>lines + [""]\<close> with its buffer. A blank line
  met while the buffer is empty goes into the buffer, as in the source.
\<close>

fun experience_loop ::
  "unicode \<Rightarrow> experience_item list \<Rightarrow> ustr list \<Rightarrow> ustr list \<Rightarrow> error + experience_item list"
where
  "experience_loop U found buffer [] = Inr found"
| "experience_loop U found buffer (line # lines) =
     (if strip U line = [] \<and> buffer \<noteq> []
      then (case experience_from_block U buffer of
              Inl e \<Rightarrow> Inl e
            | Inr item \<Rightarrow> experience_loop U (found @ [item]) [] lines)
      else experience_loop U found (buffer @ [line]) lines)"

definition parse_experience :: "unicode \<Rightarrow> ustr list \<Rightarrow> error + experience_item list" where
  "parse_experience U lines = experience_loop U [] [] (lines @ [[]])"

section \<open>Education, skills and project extractors\<close>

text \<open>
  The separators \<^verbatim>\<open> - | \u2013 |,\<close> of an education line and
  \<^verbatim>\<open> - | \u2013 |:|,\<close> of a project line; \<open>split_parts\<close> is the comprehension
  \<open>[part.strip() for part in re.split(pattern, line) if part.strip()]\<close>.
\<close>

definition education_rx :: rx where
  "education_rx = Alt (Lit (asc '' - '')) (Alt (Lit [32, 8211, 32]) (Lit (asc '','')))"

definition project_rx :: rx where
  "project_rx =
     Alt (Lit (asc '' - '')) (Alt (Lit [32, 8211, 32]) (Alt (Lit (asc '':'')) (Lit (asc '',''))))"

definition split_parts :: "unicode \<Rightarrow> rx \<Rightarrow> ustr \<Rightarrow> ustr list" where
  "split_parts U r line =
     map (strip U) (filter (\<lambda>part. strip U part \<noteq> []) (re_split U r line))"

text \<open>\<open>_parse_education\<close>: \<open>parts[0]\<close> raises \<open>IndexError\<close> when no part is left.\<close>

fun education_loop ::
  "unicode \<Rightarrow> education_item list \<Rightarrow> ustr list \<Rightarrow> error + education_item list"
where
  "education_loop U found [] = Inr found"
| "education_loop U found (line # lines) =
     (if line = [] then education_loop U found lines
      else (case split_parts U education_rx line of
              [] \<Rightarrow> Inl IndexError
            | part0 # others \<Rightarrow>
                education_loop U
                  (found @
                   [\<lparr> degree = part0,
                      institution = (case others of [] \<Rightarrow> None | part1 # _ \<Rightarrow> Some part1),
                      edu_start_date = None,
                      edu_end_date = None,
                      edu_summary =
                        (if length (part0 # others) > 2
                         then Some (join (asc '', '') (drop 2 (part0 # others)))
                         else None) \<rparr>])
                  lines))"

definition parse_education :: "unicode \<Rightarrow> ustr list \<Rightarrow> error + education_item list" where
  "parse_education U lines = education_loop U [] lines"

text \<open>\<open>_parse_skills\<close>.\<close>

definition parse_skills :: "unicode \<Rightarrow> ustr list \<Rightarrow> ustr list" where
  "parse_skills U lines =
     (let skills_text = join (asc '' '') lines
      in if 59 \<in> set skills_text
         then map (strip U) (filter (\<lambda>skill. strip U skill \<noteq> []) (split_char 59 skills_text))
         else if 44 \<in> set skills_text
         then map (strip U) (filter (\<lambda>skill. strip U skill \<noteq> []) (split_char 44 skills_text))
         else map (strip_chars (asc ''- '')) (filter (\<lambda>line. strip U line \<noteq> []) lines))"

text \<open>\<open>_parse_projects\<close>: \<open>parts[0]\<close> raises \<open>IndexError\<close> when no part is left.\<close>

fun project_loop ::
  "unicode \<Rightarrow> project_item list \<Rightarrow> ustr list \<Rightarrow> error + project_item list"
where
  "project_loop U found [] = Inr found"
| "project_loop U found (line # lines) =
     (if line = [] then project_loop U found lines
      else (case split_parts U project_rx line of
              [] \<Rightarrow> Inl IndexError
            | part0 # others \<Rightarrow>
                project_loop U
                  (found @
                   [\<lparr> name = part0,
                      description =
                        (if others \<noteq> [] then Some (join (asc '', '') others) else None),
                      link = re_search U (url_rx U) line \<rparr>])
                  lines))"

definition parse_projects :: "unicode \<Rightarrow> ustr list \<Rightarrow> error + project_item list" where
  "parse_projects U lines = project_loop U [] lines"

section \<open>The pipeline\<close>

text \<open>
  \<open>parse_text\<close> is the body of \<open>parse_resume\<close> from the extracted text on (the source
  has no function of this name): normalizer, segmenter, the extractors in the order
  of the source, so that the first exception raised is the one that leaves the call,
  and the aggregate.
\<close>

definition parse_text :: "unicode \<Rightarrow> keyword_table \<Rightarrow> ustr \<Rightarrow> error + resume_data" where
  "parse_text U kw text =
     (let lines = normalize_lines U text;
          secs = split_sections U kw lines;
          contact0 = extract_contact U (get_section secs ''header'')
      in case parse_experience U (get_section secs ''experience'') of
           Inl e \<Rightarrow> Inl e
         | Inr exps \<Rightarrow>
        (case parse_education U (get_section secs ''education'') of
           Inl e \<Rightarrow> Inl e
         | Inr edus \<Rightarrow>
        (let skills0 = parse_skills U (get_section secs ''skills'')
         in case parse_projects U (get_section secs ''projects'') of
           Inl e \<Rightarrow> Inl e
         | Inr projs \<Rightarrow>
        (let summary_lines = get_section secs ''summary''
         in Inr \<lparr> contact = contact0,
                  professional_summary =
                    (if summary_lines \<noteq> [] then Some (join (asc '' '') summary_lines)
                     else None),
                  experiences = exps,
                  educations = edus,
                  skills = skills0,
                  projects = projs \<rparr>))))"

text \<open>
  The two text extractors \<open>_read_pdf\<close> and \<open>_read_docx\<close> call libraries outside the
  repository; they are parameters, of the types their signatures declare.
\<close>

record extractors =
  read_pdf :: "bytes \<Rightarrow> ustr"
  read_docx :: "bytes \<Rightarrow> ustr"

definition parse_resume ::
  "unicode \<Rightarrow> keyword_table \<Rightarrow> extractors \<Rightarrow> bytes \<Rightarrow> ustr \<Rightarrow> error + resume_data"
where
  "parse_resume U kw X file_bytes filename =
     (if suffix (asc ''.pdf'') (u_lower U filename)
      then parse_text U kw (read_pdf X file_bytes)
      else if suffix (asc ''.doc'') (u_lower U filename)
              \<or> suffix (asc ''.docx'') (u_lower U filename)
      then parse_text U kw (read_docx X file_bytes)
      else Inl UnsupportedFormat)"

subsection \<open>The pipeline over the interpreter state\<close>

text \<open>
  The buckets of \<open>_split_sections\<close> are list objects that the loop changes in place
  and that \<open>parse_resume\<close> reads afterwards, and \<open>_detect_section\<close> reads a module
  global. The functions above give the values; the functions below give the same code
  over an explicit state, so that what a call leaves behind for the next call is a
  value of the model.
\<close>

type_synonym addr = nat

text \<open>
  The interpreter state a call runs in: the value of the module global
  \<open>SECTION_KEYWORDS\<close>, the list objects of the heap by address, and the next free
  address.
\<close>

record py_state =
  g_section_keywords :: keyword_table
  heap :: "addr \<rightharpoonup> ustr list"
  next_addr :: addr

text \<open>
  \<open>[]\<close> creates a list object at a fresh address; \<open>xs.append(line)\<close> changes the
  object at the address of \<open>xs\<close> in place. Every address the code holds refers to an
  object it has created; \<open>list_value\<close> reads an address without an object as the empty
  list, a case that does not arise.
\<close>

definition new_list :: "py_state \<Rightarrow> addr \<times> py_state" where
  "new_list st =
     (next_addr st,
      st\<lparr> heap := (heap st)(next_addr st \<mapsto> []), next_addr := Suc (next_addr st) \<rparr>)"

definition list_value :: "py_state \<Rightarrow> addr \<Rightarrow> ustr list" where
  "list_value st a = (case heap st a of None \<Rightarrow> [] | Some items \<Rightarrow> items)"

definition list_append :: "addr \<Rightarrow> ustr \<Rightarrow> py_state \<Rightarrow> py_state" where
  "list_append a line st = st\<lparr> heap := (heap st)(a \<mapsto> list_value st a @ [line]) \<rparr>"

text \<open>
  The dictionary \<open>sections\<close> of \<open>_split_sections\<close> maps a key to the address of its
  bucket list. \<open>alloc_keys\<close> is the comprehension \<open>{key: [] for key in SECTION_KEYWORDS}\<close>
  (one new list per key), \<open>setdefault_append\<close> is
  \<open>sections.setdefault(current, []).append(line)\<close>, and the loop reads the module global
  through \<open>_detect_section\<close> at every line.
\<close>

type_synonym sections_obj = "string \<rightharpoonup> addr"

fun alloc_keys :: "string list \<Rightarrow> sections_obj \<Rightarrow> py_state \<Rightarrow> sections_obj \<times> py_state" where
  "alloc_keys [] d st = (d, st)"
| "alloc_keys (key # keys) d st =
     (case new_list st of (a, st') \<Rightarrow> alloc_keys keys (d(key \<mapsto> a)) st')"

definition setdefault_append ::
  "sections_obj \<Rightarrow> string \<Rightarrow> ustr \<Rightarrow> py_state \<Rightarrow> sections_obj \<times> py_state"
where
  "setdefault_append d current line st =
     (case d current of
        Some a \<Rightarrow> (d, list_append a line st)
      | None \<Rightarrow> (case new_list st of (a, st') \<Rightarrow> (d(current \<mapsto> a), list_append a line st')))"

fun split_loop_st ::
  "unicode \<Rightarrow> string \<Rightarrow> sections_obj \<Rightarrow> ustr list \<Rightarrow> py_state \<Rightarrow> sections_obj \<times> py_state"
where
  "split_loop_st U current d [] st = (d, st)"
| "split_loop_st U current d (line # lines) st =
     (case detect_section U (g_section_keywords st) line of
        None \<Rightarrow>
          (case setdefault_append d current line st of
             (d', st') \<Rightarrow> split_loop_st U current d' lines st')
      | Some detected \<Rightarrow>
          if detected \<noteq> [] then split_loop_st U detected d lines st
          else (case setdefault_append d current line st of
                  (d', st') \<Rightarrow> split_loop_st U current d' lines st'))"

definition split_sections_st ::
  "unicode \<Rightarrow> ustr list \<Rightarrow> py_state \<Rightarrow> sections_obj \<times> py_state"
where
  "split_sections_st U lines st =
     (case alloc_keys (map fst (g_section_keywords st)) Map.empty st of
        (d, st1) \<Rightarrow>
          (case new_list st1 of
             (a, st2) \<Rightarrow> split_loop_st U ''header'' (d(''header'' \<mapsto> a)) lines st2))"

text \<open>\<open>sections.get(key, [])\<close>: the value of the list object the key refers to.\<close>

definition get_st :: "sections_obj \<Rightarrow> py_state \<Rightarrow> string \<Rightarrow> ustr list" where
  "get_st d st key = (case d key of None \<Rightarrow> [] | Some a \<Rightarrow> list_value st a)"

text \<open>
  \<open>parse_resume\<close> over the state: the body of \<open>parse_text\<close> with the buckets read from
  the heap; a call returns its result and the state it leaves.
\<close>

definition parse_text_st ::
  "unicode \<Rightarrow> ustr \<Rightarrow> py_state \<Rightarrow> (error + resume_data) \<times> py_state"
where
  "parse_text_st U text st =
     (let lines = normalize_lines U text
      in case split_sections_st U lines st of
        (d, st') \<Rightarrow>
          (let contact0 = extract_contact U (get_st d st' ''header'')
           in case parse_experience U (get_st d st' ''experience'') of
                Inl e \<Rightarrow> Inl e
              | Inr exps \<Rightarrow>
             (case parse_education U (get_st d st' ''education'') of
                Inl e \<Rightarrow> Inl e
              | Inr edus \<Rightarrow>
             (let skills0 = parse_skills U (get_st d st' ''skills'')
              in case parse_projects U (get_st d st' ''projects'') of
                Inl e \<Rightarrow> Inl e
              | Inr projs \<Rightarrow>
             (let summary_lines = get_st d st' ''summary''
              in Inr \<lparr> contact = contact0,
                       professional_summary =
                         (if summary_lines \<noteq> [] then Some (join (asc '' '') summary_lines)
                          else None),
                       experiences = exps,
                       educations = edus,
                       skills = skills0,
                       projects = projs \<rparr>))),
           st'))"

definition parse_resume_st ::
  "unicode \<Rightarrow> extractors \<Rightarrow> bytes \<Rightarrow> ustr \<Rightarrow> py_state \<Rightarrow> (error + resume_data) \<times> py_state"
where
  "parse_resume_st U X file_bytes filename st =
     (if suffix (asc ''.pdf'') (u_lower U filename)
      then parse_text_st U (read_pdf X file_bytes) st
      else if suffix (asc ''.doc'') (u_lower U filename)
              \<or> suffix (asc ''.docx'') (u_lower U filename)
      then parse_text_st U (read_docx X file_bytes) st
      else (Inl UnsupportedFormat, st))"

definition fresh_state :: py_state where
  "fresh_state = \<lparr> g_section_keywords = SECTION_KEYWORDS, heap = Map.empty, next_addr = 0 \<rparr>"

section \<open>Notions of the specification\<close>

text \<open>
  A table agrees with CPython on Latin-1 when it classifies, lower-cases and compares
  the code points below 256 as \<open>latin1\<close> does. Statements about one concrete input
  are made for every table that agrees, whatever it does above 255.
\<close>

definition agrees_latin1 :: "unicode \<Rightarrow> bool" where
  "agrees_latin1 U \<longleftrightarrow>
     (\<forall>c<256. u_space U c = u_space latin1 c \<and> u_linebreak U c = u_linebreak latin1 c
               \<and> u_word U c = u_word latin1 c \<and> u_digit U c = u_digit latin1 c)
     \<and> (\<forall>s. (\<forall>c\<in>set s. c < 256) \<longrightarrow> u_lower U s = map latin1_lower s)
     \<and> (\<forall>p<256. \<forall>c<256. u_ieq U p c = (latin1_lower p = latin1_lower c))"

text \<open>
  A whole-word occurrence of a keyword in a text, in the words of the specification: the
  text is some prefix, the keyword, some suffix, with a word boundary on each side of
  the keyword. There is a word boundary between two adjacent pieces of text when
  exactly one of the two characters that meet there is a word character (the missing
  character at either end of the text counts as no word character).
\<close>

definition word_boundary :: "unicode \<Rightarrow> ustr \<Rightarrow> ustr \<Rightarrow> bool" where
  "word_boundary U before after =
     ((before \<noteq> [] \<and> u_word U (last before)) \<noteq> (after \<noteq> [] \<and> u_word U (hd after)))"

definition whole_word_in :: "unicode \<Rightarrow> ustr \<Rightarrow> ustr \<Rightarrow> bool" where
  "whole_word_in U keyword s =
     (\<exists>pre post. s = pre @ keyword @ post
        \<and> word_boundary U pre (keyword @ post) \<and> word_boundary U (pre @ keyword) post)"

text \<open>
  A line matches a section when a keyword of the section occurs in the lower-cased
  line as a whole word; it is a heading when it matches some section of the table.
\<close>

definition matches_keywords :: "unicode \<Rightarrow> ustr list \<Rightarrow> ustr \<Rightarrow> bool" where
  "matches_keywords U keywords line =
     (\<exists>keyword\<in>set keywords. whole_word_in U keyword (u_lower U line))"

definition matches_section :: "unicode \<Rightarrow> keyword_table \<Rightarrow> ustr \<Rightarrow> string \<Rightarrow> bool" where
  "matches_section U kw line section =
     (case map_of kw section of
        None \<Rightarrow> False
      | Some keywords \<Rightarrow> matches_keywords U keywords line)"

definition is_heading :: "unicode \<Rightarrow> keyword_table \<Rightarrow> ustr \<Rightarrow> bool" where
  "is_heading U kw line =
     (\<exists>(section, keywords)\<in>set kw. matches_keywords U keywords line)"

text \<open>
  The section cursor of the specification: \<open>header\<close> at the start, and after each line
  the section that the line is detected as, if any.
\<close>

definition cursor_step :: "unicode \<Rightarrow> keyword_table \<Rightarrow> string \<Rightarrow> ustr \<Rightarrow> string" where
  "cursor_step U kw current line =
     (case detect_section U kw line of None \<Rightarrow> current | Some section \<Rightarrow> section)"

definition cursor_after :: "unicode \<Rightarrow> keyword_table \<Rightarrow> ustr list \<Rightarrow> string" where
  "cursor_after U kw before = foldl (cursor_step U kw) ''header'' before"

text \<open>
  Removing only the leading characters of a set (\<open>str.lstrip\<close>): what "stripped of
  leading bullet markers" says.
\<close>

definition lstrip_chars :: "ustr \<Rightarrow> ustr \<Rightarrow> ustr" where
  "lstrip_chars cs s = dropWhile (\<lambda>c. c \<in> set cs) s"

text \<open>
  What relates the state to the bucket map of the segmenter during a call that started
  at the free address \<open>n0\<close>: different keys refer to different list objects, every
  such object was allocated by this call, and the object of a key holds the bucket of
  the key. \<open>frame n0 st st'\<close> says what a call leaves untouched: the module global and
  every object below \<open>n0\<close>.
\<close>

definition distinct_lists :: "sections_obj \<Rightarrow> bool" where
  "distinct_lists d \<longleftrightarrow> (\<forall>k1 k2 a. d k1 = Some a \<and> d k2 = Some a \<longrightarrow> k1 = k2)"

definition lists_within :: "addr \<Rightarrow> sections_obj \<Rightarrow> py_state \<Rightarrow> bool" where
  "lists_within n0 d st \<longleftrightarrow> (\<forall>k a. d k = Some a \<longrightarrow> n0 \<le> a \<and> a < next_addr st)"

definition bucket_inv :: "addr \<Rightarrow> sections_obj \<Rightarrow> py_state \<Rightarrow> sections \<Rightarrow> bool" where
  "bucket_inv n0 d st secs \<longleftrightarrow>
     distinct_lists d \<and> lists_within n0 d st \<and> n0 \<le> next_addr st
     \<and> (\<forall>k. get_st d st k = get_section secs k)"

definition frame :: "addr \<Rightarrow> py_state \<Rightarrow> py_state \<Rightarrow> bool" where
  "frame n0 st st' \<longleftrightarrow>
     g_section_keywords st' = g_section_keywords st
     \<and> (\<forall>a. a < n0 \<longrightarrow> heap st' a = heap st a)
     \<and> next_addr st \<le> next_addr st'"

text \<open>The two characters the date splitter cuts at: the hyphen and the en dash.\<close>

definition is_dash :: "nat \<Rightarrow> bool" where
  "is_dash c \<longleftrightarrow> c = 45 \<or> c = 8211"

section \<open>Properties of the string methods\<close>

lemma agrees_latin1_latin1: "agrees_latin1 latin1"
  by (simp add: agrees_latin1_def latin1_def)

lemma agrees_space:
  "agrees_latin1 U \<Longrightarrow> c < 256 \<Longrightarrow>
   u_space U c = (c \<in> set [9, 10, 11, 12, 13, 28, 29, 30, 31, 32, 133, 160])"
  by (simp add: agrees_latin1_def latin1_def)

lemma agrees_linebreak:
  "agrees_latin1 U \<Longrightarrow> c < 256 \<Longrightarrow>
   u_linebreak U c = (c \<in> set [10, 11, 12, 13, 28, 29, 30, 133])"
  by (simp add: agrees_latin1_def latin1_def)

lemma agrees_word: "agrees_latin1 U \<Longrightarrow> c < 256 \<Longrightarrow> u_word U c = u_word latin1 c"
  by (simp add: agrees_latin1_def)

lemma agrees_digit: "agrees_latin1 U \<Longrightarrow> c < 256 \<Longrightarrow> u_digit U c = (48 \<le> c \<and> c \<le> 57)"
  by (simp add: agrees_latin1_def latin1_def)

lemma agrees_lower:
  "agrees_latin1 U \<Longrightarrow> \<forall>c\<in>set s. c < 256 \<Longrightarrow> u_lower U s = map latin1_lower s"
  by (simp add: agrees_latin1_def)

lemma agrees_ieq:
  "agrees_latin1 U \<Longrightarrow> p < 256 \<Longrightarrow> c < 256 \<Longrightarrow>
   u_ieq U p c = (latin1_lower p = latin1_lower c)"
  by (simp add: agrees_latin1_def)

lemmas agrees_simps =
  agrees_space agrees_linebreak agrees_word agrees_digit agrees_lower agrees_ieq

lemma strip_Nil: "strip U [] = []"
  by (simp add: strip_def)

lemma dropWhile_rev_dropWhile:
  "dropWhile P (rev (dropWhile P (rev (dropWhile P s)))) =
   rev (dropWhile P (rev (dropWhile P s)))"
proof -
  let ?t = "dropWhile P s"
  let ?u = "rev (dropWhile P (rev ?t))"
  show ?thesis
  proof (cases "?u = []")
    case True
    then show ?thesis by (simp only: dropWhile.simps)
  next
    case False
    then have ne: "dropWhile P (rev ?t) \<noteq> []" by simp
    have "?t = ?u @ rev (takeWhile P (rev ?t))"
      by (metis rev_append rev_rev_ident takeWhile_dropWhile_id)
    with False have "hd ?u = hd ?t" by (metis hd_append2)
    moreover have "?t \<noteq> []"
    proof
      assume "?t = []"
      with ne show False by simp
    qed
    then have "\<not> P (hd ?t)" by (rule hd_dropWhile)
    ultimately show ?thesis using False by (metis dropWhile_eq_self_iff)
  qed
qed

text \<open>Stripping is idempotent, so a stripped non-empty line is not blank.\<close>

lemma strip_idem: "strip U (strip U s) = strip U s"
proof -
  let ?P = "u_space U"
  let ?u = "rev (dropWhile ?P (rev (dropWhile ?P s)))"
  have a: "dropWhile ?P ?u = ?u" by (rule dropWhile_rev_dropWhile)
  have b: "dropWhile ?P (rev ?u) = rev ?u"
    by (simp add: dropWhile_idem)
  show ?thesis unfolding strip_def a b by simp
qed

lemma normalize_lines_not_blank:
  "line \<in> set (normalize_lines U text) \<Longrightarrow> strip U line \<noteq> []"
  by (auto simp: normalize_lines_def strip_idem)

section \<open>Properties of the segmenter's buckets\<close>

lemma get_section_append_line:
  "get_section (append_line secs current line) key =
     (if key = current then get_section secs key @ [line] else get_section secs key)"
  by (simp add: get_section_def append_line_def)

lemma split_loop_subset:
  "set (get_section (split_loop U kw current secs lines) key)
     \<subseteq> set (get_section secs key) \<union> set lines"
proof (induction lines arbitrary: current secs)
  case Nil
  then show ?case by simp
next
  case (Cons line lines)
  show ?case
  proof (cases "detect_section U kw line")
    case None
    then show ?thesis
      using Cons.IH [of current "append_line secs current line"]
      by (auto simp: get_section_append_line split: if_splits)
  next
    case (Some detected)
    then show ?thesis
      using Cons.IH [of current "append_line secs current line"] Cons.IH [of detected secs]
      by (auto simp: get_section_append_line split: if_splits)
  qed
qed

lemma get_initial_sections: "get_section (initial_sections kw) key = []"
proof -
  have "map_of (map (\<lambda>(key, _). (key, []::ustr list)) kw) key = None
        \<or> map_of (map (\<lambda>(key, _). (key, []::ustr list)) kw) key = Some []"
    by (induction kw) auto
  then show ?thesis
    unfolding get_section_def initial_sections_def by (auto split: option.split)
qed

lemma split_sections_subset:
  "set (get_section (split_sections U kw lines) key) \<subseteq> set lines"
  using split_loop_subset [of U kw "''header''" "initial_sections kw" lines key]
  by (simp add: split_sections_def get_initial_sections)

section \<open>The experience extractor on the buckets of the pipeline\<close>

lemma experience_from_block_Cons:
  "\<exists>item. experience_from_block U (header # rest) = Inr item"
  by (simp add: Let_def split: prod.split)

lemma experience_loop_no_blank:
  "\<forall>line\<in>set lines. strip U line \<noteq> [] \<Longrightarrow>
   experience_loop U found buffer (lines @ [[]]) =
     (if buffer @ lines = [] then Inr found
      else case experience_from_block U (buffer @ lines) of
             Inl e \<Rightarrow> Inl e
           | Inr item \<Rightarrow> Inr (found @ [item]))"
proof (induction lines arbitrary: buffer)
  case Nil
  then show ?case by (simp add: strip_Nil split: sum.split)
next
  case (Cons line lines)
  then show ?case by simp
qed

lemma parse_experience_no_blank:
  assumes "\<forall>line\<in>set lines. strip U line \<noteq> []"
  shows "parse_experience U lines =
     (case lines of
        [] \<Rightarrow> Inr []
      | header # rest \<Rightarrow>
          (case experience_from_block U (header # rest) of
             Inl e \<Rightarrow> Inl e
           | Inr item \<Rightarrow> Inr [item]))"
  using experience_loop_no_blank [OF assms, of "[]" "[]"]
  by (cases lines)
     (simp_all add: parse_experience_def del: experience_from_block.simps split: sum.split)

section \<open>Totality of the pipeline\<close>

lemma lone_separator_lines:
  assumes "agrees_latin1 U"
  shows "parse_text U SECTION_KEYWORDS (asc ''Education'' @ [10] @ asc '','') = Inl IndexError"
    and "parse_text U SECTION_KEYWORDS (asc ''Projects'' @ [10] @ asc '':'') = Inl IndexError"
  using assms
  by (simp_all add: parse_text_def normalize_lines_def splitlines_def asc_def strip_def
        agrees_simps split_sections_def initial_sections_def get_section_def append_line_def
        detect_section_def SECTION_KEYWORDS_def latin1_lower_def latin1_def re_search_def
        keyword_rx_def at_boundary_def word_char_def parse_experience_def
        parse_education_def parse_projects_def parse_skills_def split_parts_def
        education_rx_def project_rx_def re_split_def Let_def)

text \<open>
  Claim C1 says that once the text is extracted no step of the pipeline raises: every
  extractor degrades to absent fields or empty lists. The code does not do so. On the
  two-line text \<open>Education\<close>, \<open>,\<close> the education bucket is the one line \<open>,\<close>; the
  separator pattern cuts it into two empty pieces, no part is left, and \<open>parts[0]\<close>
  raises \<open>IndexError\<close>. The project extractor fails in the same way on the text
  \<open>Projects\<close>, \<open>:\<close>. This holds for every character table that agrees with CPython
  on Latin-1.
\<close>

theorem education_lone_comma_raises:
  assumes "agrees_latin1 U"
  shows "parse_text U SECTION_KEYWORDS (asc ''Education'' @ [10] @ asc '','') = Inl IndexError
   \<and> parse_text U SECTION_KEYWORDS (asc ''Projects'' @ [10] @ asc '':'') = Inl IndexError"
  using lone_separator_lines [OF assms] by simp

theorem education_lone_comma_raises_witness:
  "agrees_latin1 latin1
   \<and> parse_text latin1 SECTION_KEYWORDS (asc ''Education'' @ [10] @ asc '','') = Inl IndexError
   \<and> parse_text latin1 SECTION_KEYWORDS (asc ''Projects'' @ [10] @ asc '':'') = Inl IndexError"
  using education_lone_comma_raises [OF agrees_latin1_latin1] agrees_latin1_latin1 by simp

lemma cv_pdf_accepted:
  assumes "agrees_latin1 U"
  shows "suffix (asc ''.pdf'') (u_lower U (asc ''cv.pdf''))"
  using assms
  by (simp add: asc_def agrees_simps latin1_lower_def suffix_def)

text \<open>
  Claim C2 says that an unsupported file name is the only observable failure of a
  parse call. A call with the accepted name \<open>cv.pdf\<close> whose extracted text is
  \<open>Education\<close>, \<open>,\<close> fails all the same, with \<open>IndexError\<close> and not with the error of
  an unsupported format.
\<close>

theorem parse_resume_other_failure:
  assumes "agrees_latin1 U"
    and "read_pdf X file_bytes = asc ''Education'' @ [10] @ asc '',''"
  shows "parse_resume U SECTION_KEYWORDS X file_bytes (asc ''cv.pdf'') = Inl IndexError
         \<and> parse_resume U SECTION_KEYWORDS X file_bytes (asc ''cv.pdf'') \<noteq> Inl UnsupportedFormat"
  using cv_pdf_accepted [OF assms(1)] lone_separator_lines(1) [OF assms(1)] assms(2)
  by (simp add: parse_resume_def)

theorem parse_resume_other_failure_witness:
  "agrees_latin1 latin1
   \<and> read_pdf \<lparr> read_pdf = (\<lambda>file_bytes. asc ''Education'' @ [10] @ asc '',''),
                read_docx = (\<lambda>file_bytes. []) \<rparr> []
       = asc ''Education'' @ [10] @ asc '',''
   \<and> parse_resume latin1 SECTION_KEYWORDS
        \<lparr> read_pdf = (\<lambda>file_bytes. asc ''Education'' @ [10] @ asc '',''),
          read_docx = (\<lambda>file_bytes. []) \<rparr>
        [] (asc ''cv.pdf'') = Inl IndexError"
  using parse_resume_other_failure [OF agrees_latin1_latin1,
          of "\<lparr> read_pdf = (\<lambda>file_bytes. asc ''Education'' @ [10] @ asc '',''),
                read_docx = (\<lambda>file_bytes. []) \<rparr>" "[]"]
    agrees_latin1_latin1
  by simp

text \<open>
  The only exception an extractor raises is \<open>IndexError\<close>, so the error of an
  unsupported format marks exactly the file names of no accepted extension; for such a
  name no text extractor is called and nothing of the file is read.
\<close>

lemma experience_loop_error:
  "experience_loop U found buffer ls = Inl e \<Longrightarrow> e = IndexError"
proof (induction ls arbitrary: found buffer)
  case Nil
  then show ?case by simp
next
  case (Cons l ls)
  show ?case
  proof (cases "strip U l = [] \<and> buffer \<noteq> []")
    case True
    then obtain header rest where b: "buffer = header # rest" by (cases buffer) auto
    obtain item where i: "experience_from_block U (header # rest) = Inr item"
      using experience_from_block_Cons by blast
    show ?thesis
      using Cons.prems True Cons.IH [of "found @ [item]" "[]"] b i
      by (simp del: experience_from_block.simps)
  next
    case False
    then show ?thesis
      using Cons.prems Cons.IH [of found "buffer @ [l]"]
      by (auto simp del: experience_from_block.simps)
  qed
qed

lemma education_loop_error:
  "education_loop U found ls = Inl e \<Longrightarrow> e = IndexError"
  by (induction ls arbitrary: found) (auto split: if_splits list.splits)

lemma project_loop_error:
  "project_loop U found ls = Inl e \<Longrightarrow> e = IndexError"
  by (induction ls arbitrary: found) (auto split: if_splits list.splits)

lemma parse_text_error:
  "parse_text U kw blob = Inl e \<Longrightarrow> e = IndexError"
  unfolding parse_text_def parse_experience_def parse_education_def parse_projects_def Let_def
  by (auto split: sum.splits dest: experience_loop_error education_loop_error project_loop_error)

text \<open>
  A parse call fails with the unsupported-format error exactly when the lower-cased
  file name ends in none of \<open>.pdf\<close>, \<open>.doc\<close> and \<open>.docx\<close>, whatever the bytes and the
  text extractors are.
\<close>

theorem unsupported_format_iff:
  "parse_resume U kw X file_bytes filename = Inl UnsupportedFormat
   \<longleftrightarrow> \<not> (suffix (asc ''.pdf'') (u_lower U filename)
          \<or> suffix (asc ''.doc'') (u_lower U filename)
          \<or> suffix (asc ''.docx'') (u_lower U filename))"
  using parse_text_error [of U kw "read_pdf X file_bytes" UnsupportedFormat]
    parse_text_error [of U kw "read_docx X file_bytes" UnsupportedFormat]
  by (auto simp: parse_resume_def)

lemma cv_txt_lower: "u_lower latin1 (asc ''cv.txt'') = asc ''cv.txt''"
  by code_simp

theorem unsupported_format_iff_witness:
  "parse_resume latin1 SECTION_KEYWORDS
     \<lparr> read_pdf = (\<lambda>file_bytes. asc ''Education''), read_docx = (\<lambda>file_bytes. []) \<rparr>
     [] (asc ''cv.txt'') = Inl UnsupportedFormat"
  using unsupported_format_iff [of latin1 SECTION_KEYWORDS
          "\<lparr> read_pdf = (\<lambda>file_bytes. asc ''Education''), read_docx = (\<lambda>file_bytes. []) \<rparr>"
          "[]" "asc ''cv.txt''"]
  unfolding cv_txt_lower
  by (simp add: asc_def suffix_def)

section \<open>The empty text\<close>

lemma parse_text_empty:
  "parse_text U kw [] =
     Inr \<lparr> contact = \<lparr> full_name = asc ''Nome n'' @ [227] @ asc ''o identificado'',
                       email = None, phone = None, location = None, website = None,
                       linkedin = None \<rparr>,
           professional_summary = None, experiences = [], educations = [], skills = [],
           projects = [] \<rparr>"
  by (simp add: parse_text_def normalize_lines_def splitlines_def split_sections_def
        get_initial_sections parse_experience_def strip_Nil parse_education_def
        parse_skills_def parse_projects_def no_name_def)

text \<open>
  Claim C3 as stated, with the placeholder \<open>"Name not identified"\<close>, fails: the name the
  code gives to an empty header is another string.
\<close>

theorem empty_text_english_placeholder_counterexample:
  "parse_text latin1 SECTION_KEYWORDS [] \<noteq>
     Inr \<lparr> contact = \<lparr> full_name = asc ''Name not identified'',
                       email = None, phone = None, location = None, website = None,
                       linkedin = None \<rparr>,
           professional_summary = None, experiences = [], educations = [], skills = [],
           projects = [] \<rparr>"
  by (simp add: parse_text_empty asc_def)

text \<open>
  Claim C3, amended: for the empty extracted text the pipeline returns a result whose
  contact has the fixed placeholder \<open>"Nome nao identificado"\<close> (with a tilde on the
  first \<open>a\<close> of the second word, code point 227) as its full name and every other field
  absent, whose professional summary is absent and whose four lists are empty. This
  holds for every character table and every keyword table.
\<close>

theorem empty_text_result:
  "parse_text U kw [] =
     Inr \<lparr> contact = \<lparr> full_name = asc ''Nome n'' @ [227] @ asc ''o identificado'',
                       email = None, phone = None, location = None, website = None,
                       linkedin = None \<rparr>,
           professional_summary = None, experiences = [], educations = [], skills = [],
           projects = [] \<rparr>"
  by (rule parse_text_empty)

theorem empty_text_result_witness:
  "parse_text latin1 SECTION_KEYWORDS [] =
     Inr \<lparr> contact = \<lparr> full_name = asc ''Nome n'' @ [227] @ asc ''o identificado'',
                       email = None, phone = None, location = None, website = None,
                       linkedin = None \<rparr>,
           professional_summary = None, experiences = [], educations = [], skills = [],
           projects = [] \<rparr>"
  using empty_text_result [of latin1 SECTION_KEYWORDS] .

section \<open>The contact example\<close>

text \<open>
  Claim C7: on the header lines \<open>Jane Doe\<close> and
  \<open>jane@example.com, (11) 98765-4321, Sao Paulo, Brasil\<close> (with a tilde on the \<open>a\<close> of
  \<open>Sao\<close>, code point 227) the contact extractor returns the first line as the full
  name, the e-mail address \<open>jane@example.com\<close>, the phone \<open>(11) 98765-4321\<close>, the
  location \<open>Brasil\<close> (the last comma-separated fragment of more than two characters),
  and neither a LinkedIn address nor a website. This holds for every character table
  that agrees with CPython on Latin-1.
\<close>

theorem contact_example:
  assumes "agrees_latin1 U"
  shows "extract_contact U
           [asc ''Jane Doe'',
            asc ''jane@example.com, (11) 98765-4321, S'' @ [227] @ asc ''o Paulo, Brasil'']
         = \<lparr> full_name = asc ''Jane Doe'',
             email = Some (asc ''jane@example.com''),
             phone = Some (asc ''(11) 98765-4321''),
             location = Some (asc ''Brasil''),
             website = None,
             linkedin = None \<rparr>"
  using assms
  by (simp add: asc_def re_search_def email_rx_def phone_rx_def url_rx_def linkedin_rx_def
        strip_def split_char_def agrees_simps latin1_def latin1_lower_def Let_def)

theorem contact_example_witness:
  "agrees_latin1 latin1 \<and>
   extract_contact latin1
           [asc ''Jane Doe'',
            asc ''jane@example.com, (11) 98765-4321, S'' @ [227] @ asc ''o Paulo, Brasil'']
         = \<lparr> full_name = asc ''Jane Doe'',
             email = Some (asc ''jane@example.com''),
             phone = Some (asc ''(11) 98765-4321''),
             location = Some (asc ''Brasil''),
             website = None,
             linkedin = None \<rparr>"
  using contact_example [OF agrees_latin1_latin1] agrees_latin1_latin1 by simp

section \<open>Determinism\<close>

lemma frame_refl: "frame n0 st st"
  by (simp add: frame_def)

lemma frame_trans: "frame n0 st st' \<Longrightarrow> frame n0 st' st'' \<Longrightarrow> frame n0 st st''"
  by (auto simp: frame_def)

lemma frame_new_list: "n0 \<le> next_addr st \<Longrightarrow> new_list st = (a, st') \<Longrightarrow> frame n0 st st'"
  by (auto simp: frame_def new_list_def)

lemma frame_list_append: "n0 \<le> a \<Longrightarrow> frame n0 st (list_append a line st)"
  by (auto simp: frame_def list_append_def)

lemma get_section_empty: "get_section Map.empty key = []"
  by (simp add: get_section_def)

lemma fresh_new_list:
  assumes "lists_within n0 d st" and "new_list st = (a, st')"
  shows "a = next_addr st" and "next_addr st' = Suc (next_addr st)"
    and "\<forall>k. d k \<noteq> Some a" and "lists_within n0 d st'"
proof -
  show a: "a = next_addr st" and n: "next_addr st' = Suc (next_addr st)"
    using assms(2) by (auto simp: new_list_def)
  have below: "\<And>k b. d k = Some b \<Longrightarrow> n0 \<le> b \<and> b < next_addr st"
    using assms(1) by (simp add: lists_within_def)
  show "\<forall>k. d k \<noteq> Some a"
    using below a by fastforce
  show "lists_within n0 d st'"
    unfolding lists_within_def n using below less_SucI by blast
qed

lemma get_st_new_list:
  assumes "lists_within n0 d st" and "new_list st = (a, st')"
  shows "get_st (d(key \<mapsto> a)) st' k = (if k = key then [] else get_st d st k)"
proof (cases "k = key")
  case True
  then show ?thesis using assms(2) by (auto simp: get_st_def list_value_def new_list_def)
next
  case False
  show ?thesis
  proof (cases "d k")
    case None
    then show ?thesis using False by (simp add: get_st_def)
  next
    case (Some b)
    then have "b \<noteq> a" using fresh_new_list(3) [OF assms] by auto
    then have "heap st' b = heap st b" using assms(2) fresh_new_list(1) [OF assms]
      by (auto simp: new_list_def)
    then show ?thesis using False Some by (simp add: get_st_def list_value_def)
  qed
qed

lemma get_st_list_append:
  assumes "distinct_lists d" and "d current = Some a"
  shows "get_st d (list_append a line st) k =
           (if k = current then get_st d st k @ [line] else get_st d st k)"
proof (cases "k = current")
  case True
  then show ?thesis using assms(2) by (simp add: get_st_def list_value_def list_append_def)
next
  case False
  show ?thesis
  proof (cases "d k")
    case None
    then show ?thesis using False by (simp add: get_st_def)
  next
    case (Some b)
    then have "b \<noteq> a" using assms False unfolding distinct_lists_def by blast
    then show ?thesis using False Some
      by (simp add: get_st_def list_value_def list_append_def)
  qed
qed

lemma lists_within_list_append:
  "lists_within n0 d st \<Longrightarrow> lists_within n0 d (list_append a line st)"
  by (simp add: lists_within_def list_append_def)

lemma next_addr_list_append: "next_addr (list_append a line st) = next_addr st"
  by (simp add: list_append_def)

lemma bucket_inv_new_list:
  assumes "bucket_inv n0 d st secs" and "new_list st = (a, st')"
    and "get_section secs key = []"
  shows "bucket_inv n0 (d(key \<mapsto> a)) st' secs"
proof -
  have dl: "distinct_lists d" and lw: "lists_within n0 d st" and n: "n0 \<le> next_addr st"
    and g: "\<forall>k. get_st d st k = get_section secs k"
    using assms(1) by (auto simp: bucket_inv_def)
  note fr = fresh_new_list [OF lw assms(2)]
  have "distinct_lists (d(key \<mapsto> a))"
    using dl fr(3) unfolding distinct_lists_def by (auto split: if_splits)
  moreover have "lists_within n0 (d(key \<mapsto> a)) st'"
    using fr(4) fr(1) fr(2) n unfolding lists_within_def by (auto split: if_splits)
  moreover have "n0 \<le> next_addr st'" using fr(2) n by simp
  moreover have "\<forall>k. get_st (d(key \<mapsto> a)) st' k = get_section secs k"
    using get_st_new_list [OF lw assms(2)] g assms(3) by simp
  ultimately show ?thesis by (simp add: bucket_inv_def)
qed

lemma setdefault_append_inv:
  assumes "bucket_inv n0 d st secs" and "setdefault_append d current line st = (d', st')"
  shows "bucket_inv n0 d' st' (append_line secs current line) \<and> frame n0 st st'"
proof (cases "d current")
  case (Some a)
  have dl: "distinct_lists d" and lw: "lists_within n0 d st" and n: "n0 \<le> next_addr st"
    and g: "\<forall>k. get_st d st k = get_section secs k"
    using assms(1) by (auto simp: bucket_inv_def)
  have eq: "d' = d" "st' = list_append a line st"
    using assms(2) Some by (simp_all add: setdefault_append_def)
  have a: "n0 \<le> a" using lw Some by (auto simp: lists_within_def)
  have "\<forall>k. get_st d (list_append a line st) k = get_section (append_line secs current line) k"
    using get_st_list_append [OF dl Some] g by (simp add: get_section_append_line)
  then have "bucket_inv n0 d' st' (append_line secs current line)"
    unfolding eq bucket_inv_def
    using dl lists_within_list_append [OF lw] n by (simp add: next_addr_list_append)
  then show ?thesis using frame_list_append [OF a] eq by simp
next
  case None
  obtain a st1 where nl: "new_list st = (a, st1)" by (cases "new_list st")
  have eq: "d' = d(current \<mapsto> a)" "st' = list_append a line st1"
    using assms(2) None nl by (simp_all add: setdefault_append_def)
  have g: "\<forall>k. get_st d st k = get_section secs k" and n: "n0 \<le> next_addr st"
    and lw: "lists_within n0 d st"
    using assms(1) by (auto simp: bucket_inv_def)
  have empty: "get_section secs current = []"
    using g [rule_format, of current] None by (simp add: get_st_def)
  have inv1: "bucket_inv n0 (d(current \<mapsto> a)) st1 secs"
    by (rule bucket_inv_new_list [OF assms(1) nl empty])
  have sub: "setdefault_append (d(current \<mapsto> a)) current line st1
               = (d(current \<mapsto> a), list_append a line st1)"
    by (simp add: setdefault_append_def)
  have a: "n0 \<le> a" using fresh_new_list(1) [OF lw nl] n by simp
  have dl1: "distinct_lists (d(current \<mapsto> a))" and lw1: "lists_within n0 (d(current \<mapsto> a)) st1"
    and n1: "n0 \<le> next_addr st1"
    and g1: "\<forall>k. get_st (d(current \<mapsto> a)) st1 k = get_section secs k"
    using inv1 by (auto simp: bucket_inv_def)
  have "\<forall>k. get_st (d(current \<mapsto> a)) (list_append a line st1) k
            = get_section (append_line secs current line) k"
    using get_st_list_append [OF dl1, of current a] g1 by (simp add: get_section_append_line)
  then have "bucket_inv n0 d' st' (append_line secs current line)"
    unfolding eq bucket_inv_def
    using dl1 lists_within_list_append [OF lw1] n1 by (simp add: next_addr_list_append)
  moreover have "frame n0 st st'"
    unfolding eq using frame_trans [OF frame_new_list [OF n nl] frame_list_append [OF a]] .
  ultimately show ?thesis by simp
qed

lemma split_loop_st_inv:
  assumes "bucket_inv n0 d st secs" and "split_loop_st U current d lines st = (d', st')"
  shows "bucket_inv n0 d' st' (split_loop U (g_section_keywords st) current secs lines)
         \<and> frame n0 st st'"
  using assms
proof (induction lines arbitrary: current d st secs)
  case Nil
  then show ?case by (simp add: frame_refl)
next
  case (Cons line lines)
  obtain d1 st1 where sa: "setdefault_append d current line st = (d1, st1)"
    by (cases "setdefault_append d current line st")
  note step = setdefault_append_inv [OF Cons.prems(1) sa]
  have g1: "g_section_keywords st1 = g_section_keywords st"
    using step by (simp add: frame_def)
  show ?case
  proof (cases "detect_section U (g_section_keywords st) line")
    case None
    then have run: "split_loop_st U current d1 lines st1 = (d', st')"
      using Cons.prems(2) sa by simp
    from Cons.IH [OF conjunct1 [OF step] run] None g1 step
    show ?thesis by (auto intro: frame_trans)
  next
    case (Some detected)
    show ?thesis
    proof (cases "detected = []")
      case True
      then have run: "split_loop_st U current d1 lines st1 = (d', st')"
        using Cons.prems(2) sa Some by simp
      from Cons.IH [OF conjunct1 [OF step] run] Some True g1 step
      show ?thesis by (auto intro: frame_trans)
    next
      case False
      then have run: "split_loop_st U detected d lines st = (d', st')"
        using Cons.prems(2) Some by simp
      from Cons.IH [OF Cons.prems(1) run] Some False
      show ?thesis by simp
    qed
  qed
qed

lemma alloc_keys_inv:
  assumes "bucket_inv n0 d st Map.empty" and "alloc_keys keys d st = (d', st')"
  shows "bucket_inv n0 d' st' Map.empty \<and> frame n0 st st'"
  using assms
proof (induction keys arbitrary: d st)
  case Nil
  then show ?case by (simp add: frame_refl)
next
  case (Cons key keys)
  obtain a st1 where nl: "new_list st = (a, st1)" by (cases "new_list st")
  have inv1: "bucket_inv n0 (d(key \<mapsto> a)) st1 Map.empty"
    by (rule bucket_inv_new_list [OF Cons.prems(1) nl]) (rule get_section_empty)
  have n: "n0 \<le> next_addr st" using Cons.prems(1) by (simp add: bucket_inv_def)
  have run: "alloc_keys keys (d(key \<mapsto> a)) st1 = (d', st')"
    using Cons.prems(2) nl by simp
  from Cons.IH [OF inv1 run] frame_new_list [OF n nl]
  show ?case by (auto intro: frame_trans)
qed

lemma split_sections_st_refines:
  assumes "split_sections_st U lines st = (d', st')"
  shows "(\<forall>key. get_st d' st' key
            = get_section (split_sections U (g_section_keywords st) lines) key)
         \<and> frame (next_addr st) st st'"
proof -
  let ?n0 = "next_addr st"
  obtain d1 st1 where ak: "alloc_keys (map fst (g_section_keywords st)) Map.empty st = (d1, st1)"
    by (cases "alloc_keys (map fst (g_section_keywords st)) Map.empty st")
  obtain a st2 where nl: "new_list st1 = (a, st2)" by (cases "new_list st1")
  have run: "split_loop_st U ''header'' (d1(''header'' \<mapsto> a)) lines st2 = (d', st')"
    using assms ak nl by (simp add: split_sections_st_def)
  have inv0: "bucket_inv ?n0 Map.empty st Map.empty"
    by (simp add: bucket_inv_def distinct_lists_def lists_within_def get_st_def
          get_section_empty)
  note s1 = alloc_keys_inv [OF inv0 ak]
  have inv1: "bucket_inv ?n0 d1 st1 Map.empty" using s1 by simp
  have n1: "?n0 \<le> next_addr st1" using inv1 by (simp add: bucket_inv_def)
  have inv2: "bucket_inv ?n0 (d1(''header'' \<mapsto> a)) st2 Map.empty"
    by (rule bucket_inv_new_list [OF inv1 nl]) (rule get_section_empty)
  have inv2': "bucket_inv ?n0 (d1(''header'' \<mapsto> a)) st2
                 (initial_sections (g_section_keywords st))"
    using inv2 by (simp add: bucket_inv_def get_initial_sections get_section_empty)
  have f2: "frame ?n0 st st2"
    using frame_trans [OF conjunct2 [OF s1] frame_new_list [OF n1 nl]] .
  then have g2: "g_section_keywords st2 = g_section_keywords st" by (simp add: frame_def)
  note s3 = split_loop_st_inv [OF inv2' run]
  have "\<forall>key. get_st d' st' key
            = get_section (split_sections U (g_section_keywords st) lines) key"
    using s3 g2 by (simp add: bucket_inv_def split_sections_def)
  moreover have "frame ?n0 st st'" using frame_trans [OF f2 conjunct2 [OF s3]] .
  ultimately show ?thesis by simp
qed

lemma parse_text_st_refines:
  "fst (parse_text_st U blob st) = parse_text U (g_section_keywords st) blob
   \<and> frame (next_addr st) st (snd (parse_text_st U blob st))"
proof -
  obtain d st' where ss: "split_sections_st U (normalize_lines U blob) st = (d, st')"
    by (cases "split_sections_st U (normalize_lines U blob) st")
  note r = split_sections_st_refines [OF ss]
  have g: "\<And>key. get_st d st' key
            = get_section (split_sections U (g_section_keywords st) (normalize_lines U blob)) key"
    using r by simp
  show ?thesis
    unfolding parse_text_st_def parse_text_def Let_def ss prod.case g
    using r by simp
qed

lemma parse_resume_st_refines:
  "fst (parse_resume_st U X file_bytes filename st)
     = parse_resume U (g_section_keywords st) X file_bytes filename
   \<and> frame (next_addr st) st (snd (parse_resume_st U X file_bytes filename st))"
  using parse_text_st_refines [of U "read_pdf X file_bytes" st]
    parse_text_st_refines [of U "read_docx X file_bytes" st]
  by (simp add: parse_resume_st_def parse_resume_def frame_refl)

text \<open>
  Claim C9: the pipeline is deterministic, a pure function without hidden state. A call
  does change the interpreter state (it allocates the bucket lists and appends to
  them), but it leaves the module global \<open>SECTION_KEYWORDS\<close> and every object that
  existed before the call as they were, and its result is the value of the pure
  pipeline on the input and the keyword table. So a second call on the same input,
  started from the state the first call left, returns the same result, field for
  field.
\<close>

theorem parse_resume_deterministic:
  fixes U X file_bytes filename st
  defines "first \<equiv> parse_resume_st U X file_bytes filename st"
  defines "second \<equiv> parse_resume_st U X file_bytes filename (snd first)"
  shows "fst second = fst first
     \<and> fst first = parse_resume U (g_section_keywords st) X file_bytes filename
     \<and> g_section_keywords (snd first) = g_section_keywords st
     \<and> (\<forall>a. a < next_addr st \<longrightarrow> heap (snd first) a = heap st a)"
proof -
  have one: "fst first = parse_resume U (g_section_keywords st) X file_bytes filename"
    and f: "frame (next_addr st) st (snd first)"
    unfolding first_def using parse_resume_st_refines by blast+
  have g: "g_section_keywords (snd first) = g_section_keywords st"
    and h: "\<forall>a. a < next_addr st \<longrightarrow> heap (snd first) a = heap st a"
    using f by (simp_all add: frame_def)
  have "fst second = parse_resume U (g_section_keywords (snd first)) X file_bytes filename"
    unfolding second_def using parse_resume_st_refines by blast
  then have two: "fst second = fst first" using g one by simp
  show ?thesis using two one g h by blast
qed

lemma first_call_allocates:
  "next_addr (snd (parse_resume_st latin1
       \<lparr> read_pdf = (\<lambda>file_bytes. asc ''Jane'' @ [10] @ asc ''Skills'' @ [10] @ asc ''Go''),
         read_docx = (\<lambda>file_bytes. []) \<rparr>
       [] (asc ''cv.pdf'') fresh_state)) = 6
   \<and> heap (snd (parse_resume_st latin1
       \<lparr> read_pdf = (\<lambda>file_bytes. asc ''Jane'' @ [10] @ asc ''Skills'' @ [10] @ asc ''Go''),
         read_docx = (\<lambda>file_bytes. []) \<rparr>
       [] (asc ''cv.pdf'') fresh_state)) 2 = Some [asc ''Go'']"
  by code_simp

theorem parse_resume_deterministic_witness:
  "fst (parse_resume_st latin1
       \<lparr> read_pdf = (\<lambda>file_bytes. asc ''Jane'' @ [10] @ asc ''Skills'' @ [10] @ asc ''Go''),
         read_docx = (\<lambda>file_bytes. []) \<rparr>
       [] (asc ''cv.pdf'')
       (snd (parse_resume_st latin1
          \<lparr> read_pdf = (\<lambda>file_bytes. asc ''Jane'' @ [10] @ asc ''Skills'' @ [10] @ asc ''Go''),
            read_docx = (\<lambda>file_bytes. []) \<rparr>
          [] (asc ''cv.pdf'') fresh_state)))
   = fst (parse_resume_st latin1
       \<lparr> read_pdf = (\<lambda>file_bytes. asc ''Jane'' @ [10] @ asc ''Skills'' @ [10] @ asc ''Go''),
         read_docx = (\<lambda>file_bytes. []) \<rparr>
       [] (asc ''cv.pdf'') fresh_state)
   \<and> next_addr (snd (parse_resume_st latin1
       \<lparr> read_pdf = (\<lambda>file_bytes. asc ''Jane'' @ [10] @ asc ''Skills'' @ [10] @ asc ''Go''),
         read_docx = (\<lambda>file_bytes. []) \<rparr>
       [] (asc ''cv.pdf'') fresh_state)) = 6"
  using parse_resume_deterministic [of latin1
          "\<lparr> read_pdf = (\<lambda>file_bytes. asc ''Jane'' @ [10] @ asc ''Skills'' @ [10] @ asc ''Go''),
             read_docx = (\<lambda>file_bytes. []) \<rparr>" "[]" "asc ''cv.pdf''" fresh_state]
    first_call_allocates
  by blast

section \<open>One experience entry per parse\<close>

text \<open>
  Claim C10: in the pipeline the experience bucket never holds an empty or blank line,
  so the sentinel of the experience extractor flushes once: an empty bucket gives the
  empty list, a non-empty bucket gives exactly one item, the one built from the whole
  bucket (its first line the header, the remaining lines the highlight candidates), and
  no parse returns more than one experience entry.
\<close>

theorem one_experience_per_parse:
  fixes U kw blob
  defines "bucket \<equiv> get_section (split_sections U kw (normalize_lines U blob)) ''experience''"
  shows "(\<forall>line\<in>set bucket. line \<noteq> [] \<and> strip U line \<noteq> [])
     \<and> (bucket = [] \<longrightarrow> parse_experience U bucket = Inr [])
     \<and> (bucket \<noteq> [] \<longrightarrow>
          (\<exists>item. experience_from_block U bucket = Inr item
                 \<and> parse_experience U bucket = Inr [item]))
     \<and> (\<forall>r. parse_text U kw blob = Inr r \<longrightarrow> length (experiences r) \<le> 1)"
proof -
  have nb: "\<forall>line\<in>set bucket. strip U line \<noteq> []"
    using split_sections_subset [of U kw "normalize_lines U blob" "''experience''"]
      normalize_lines_not_blank [of _ U blob]
    unfolding bucket_def by blast
  have ne: "\<forall>line\<in>set bucket. line \<noteq> []"
    using nb by (auto simp: strip_Nil)
  have pe: "parse_experience U bucket =
     (case bucket of
        [] \<Rightarrow> Inr []
      | header # rest \<Rightarrow>
          (case experience_from_block U (header # rest) of
             Inl e \<Rightarrow> Inl e
           | Inr item \<Rightarrow> Inr [item]))"
    by (rule parse_experience_no_blank [OF nb])
  have empty: "bucket = [] \<longrightarrow> parse_experience U bucket = Inr []"
    using pe by auto
  have one: "bucket \<noteq> [] \<longrightarrow>
          (\<exists>item. experience_from_block U bucket = Inr item
                 \<and> parse_experience U bucket = Inr [item])"
  proof
    assume "bucket \<noteq> []"
    then obtain header rest where b: "bucket = header # rest" by (cases bucket) auto
    obtain item where "experience_from_block U (header # rest) = Inr item"
      using experience_from_block_Cons by blast
    then show "\<exists>item. experience_from_block U bucket = Inr item
                 \<and> parse_experience U bucket = Inr [item]"
      using pe b by simp
  qed
  have len: "\<forall>r. parse_text U kw blob = Inr r \<longrightarrow> length (experiences r) \<le> 1"
  proof (intro allI impI)
    fix r assume r: "parse_text U kw blob = Inr r"
    then have "parse_experience U bucket = Inr (experiences r)"
      unfolding parse_text_def bucket_def
      by (auto simp: Let_def split: sum.splits)
    then show "length (experiences r) \<le> 1"
      using empty one by (cases "bucket = []") auto
  qed
  show ?thesis using nb ne empty one len by blast
qed

lemma two_blocks_bucket:
  "get_section (split_sections latin1 SECTION_KEYWORDS
       (normalize_lines latin1
          (asc ''Jane'' @ [10] @ asc ''Experience'' @ [10] @ asc ''Acme - Dev'' @ [10, 10]
             @ asc ''Beta - QA''))) ''experience''
     = [asc ''Acme - Dev'', asc ''Beta - QA'']"
  by code_simp

lemma two_blocks_item:
  "experience_from_block latin1 [asc ''Acme - Dev'', asc ''Beta - QA'']
     = Inr \<lparr> role = asc ''Dev'', company = Some (asc ''Acme''), start_date = None,
             end_date = None, summary = None, highlights = [asc ''Beta - QA''] \<rparr>"
  by code_simp

theorem one_experience_per_parse_witness:
  "get_section (split_sections latin1 SECTION_KEYWORDS
       (normalize_lines latin1
          (asc ''Jane'' @ [10] @ asc ''Experience'' @ [10] @ asc ''Acme - Dev'' @ [10, 10]
             @ asc ''Beta - QA''))) ''experience''
     = [asc ''Acme - Dev'', asc ''Beta - QA'']
   \<and> parse_experience latin1 [asc ''Acme - Dev'', asc ''Beta - QA'']
     = Inr [\<lparr> role = asc ''Dev'', company = Some (asc ''Acme''), start_date = None,
             end_date = None, summary = None, highlights = [asc ''Beta - QA''] \<rparr>]"
  using one_experience_per_parse [of latin1 SECTION_KEYWORDS
          "asc ''Jane'' @ [10] @ asc ''Experience'' @ [10] @ asc ''Acme - Dev'' @ [10, 10]
             @ asc ''Beta - QA''"]
  unfolding two_blocks_bucket two_blocks_item by auto

section \<open>Keyword search is whole-word occurrence\<close>

lemma at_boundary_word_boundary:
  "at_boundary U (if before = [] then None else Some (last before), after) = word_boundary U before after"
  by (cases after) (simp_all add: at_boundary_def word_boundary_def word_char_def)

lemma keyword_rx_ends_eq:
  "rx_ends U (keyword_rx k) (prev, s) =
     (if at_boundary U (prev, s) \<and> prefix k s
         \<and> at_boundary U (if k = [] then prev else Some (last k), drop (length k) s)
      then [(if k = [] then prev else Some (last k), drop (length k) s)] else [])"
  by (simp add: keyword_rx_def)

lemma keyword_rx_ends:
  "rx_ends U (keyword_rx k) (prev, s) \<noteq> [] \<longleftrightarrow>
     at_boundary U (prev, s) \<and> prefix k s
     \<and> at_boundary U (if k = [] then prev else Some (last k), drop (length k) s)"
  unfolding keyword_rx_ends_eq by simp

text \<open>An occurrence of the keyword in the rest of a text of which \<open>seen\<close> was read.\<close>

lemma occurrence_Cons:
  "(\<exists>pre post. c # t = pre @ k @ post
       \<and> word_boundary U (seen @ pre) (k @ post) \<and> word_boundary U (seen @ pre @ k) post)
   \<longleftrightarrow>
     (prefix k (c # t) \<and> word_boundary U seen (c # t)
        \<and> word_boundary U (seen @ k) (drop (length k) (c # t)))
     \<or> (\<exists>pre post. t = pre @ k @ post
           \<and> word_boundary U ((seen @ [c]) @ pre) (k @ post)
           \<and> word_boundary U ((seen @ [c]) @ pre @ k) post)"
  (is "?L \<longleftrightarrow> ?A \<or> ?B")
proof
  assume ?L
  then obtain pre post where p: "c # t = pre @ k @ post"
    "word_boundary U (seen @ pre) (k @ post)" "word_boundary U (seen @ pre @ k) post"
    by blast
  show "?A \<or> ?B"
  proof (cases pre)
    case Nil
    with p have "c # t = k @ post" by simp
    then have "prefix k (c # t)" "drop (length k) (c # t) = post"
      by (simp_all add: prefix_def)
    with p Nil show ?thesis by simp
  next
    case (Cons x pre')
    with p have "x = c" "t = pre' @ k @ post" by simp_all
    with p Cons show ?thesis by auto
  qed
next
  assume "?A \<or> ?B"
  then show ?L
  proof
    assume a: ?A
    then obtain post where post: "c # t = k @ post" by (auto simp: prefix_def)
    then have "drop (length k) (c # t) = post" by simp
    with a post show ?L by (intro exI [of _ "[]"] exI [of _ post]) simp
  next
    assume ?B
    then obtain pre post where "t = pre @ k @ post"
      "word_boundary U ((seen @ [c]) @ pre) (k @ post)"
      "word_boundary U ((seen @ [c]) @ pre @ k) post"
      by blast
    then show ?L by (intro exI [of _ "c # pre"] exI [of _ post]) simp
  qed
qed

lemma search_keyword_from:
  "search_from U (keyword_rx k) (if seen = [] then None else Some (last seen)) s \<noteq> None
   \<longleftrightarrow> (\<exists>pre post. s = pre @ k @ post
          \<and> word_boundary U (seen @ pre) (k @ post) \<and> word_boundary U (seen @ pre @ k) post)"
proof (induction s arbitrary: seen)
  case Nil
  have "search_from U (keyword_rx k) (if seen = [] then None else Some (last seen)) [] \<noteq> None
        \<longleftrightarrow> rx_ends U (keyword_rx k) (if seen = [] then None else Some (last seen), []) \<noteq> []"
    by (simp split: list.split)
  also have "\<dots> \<longleftrightarrow> k = [] \<and> word_boundary U seen []"
    unfolding keyword_rx_ends using at_boundary_word_boundary [of U seen "[]"] by auto
  finally show ?case by auto
next
  case (Cons c t)
  let ?prev = "if seen = [] then None else Some (last seen)"
  have last: "(if k = [] then ?prev else Some (last k))
              = (if seen @ k = [] then None else Some (last (seen @ k)))"
    by simp
  have "search_from U (keyword_rx k) ?prev (c # t) \<noteq> None
        \<longleftrightarrow> rx_ends U (keyword_rx k) (?prev, c # t) \<noteq> []
            \<or> search_from U (keyword_rx k) (Some c) t \<noteq> None"
    by (simp split: list.split prod.split)
  also have "rx_ends U (keyword_rx k) (?prev, c # t) \<noteq> []
        \<longleftrightarrow> prefix k (c # t) \<and> word_boundary U seen (c # t)
            \<and> word_boundary U (seen @ k) (drop (length k) (c # t))"
    unfolding keyword_rx_ends last at_boundary_word_boundary by blast
  also have "search_from U (keyword_rx k) (Some c) t \<noteq> None
        \<longleftrightarrow> (\<exists>pre post. t = pre @ k @ post
           \<and> word_boundary U ((seen @ [c]) @ pre) (k @ post)
           \<and> word_boundary U ((seen @ [c]) @ pre @ k) post)"
    using Cons.IH [of "seen @ [c]"] by simp
  finally show ?case unfolding occurrence_Cons .
qed

lemma re_search_keyword:
  "re_search U (keyword_rx k) s \<noteq> None \<longleftrightarrow> whole_word_in U k s"
  using search_keyword_from [of U k "[]" s]
  by (simp add: re_search_def whole_word_in_def)

lemma keywords_found:
  "list_ex (\<lambda>keyword. re_search U (keyword_rx keyword) (u_lower U line) \<noteq> None) keywords
   \<longleftrightarrow> matches_keywords U keywords line"
  by (simp only: list_ex_iff re_search_keyword matches_keywords_def)

section \<open>The section a line is detected as\<close>

lemma detect_loop_find:
  "detect_loop U (u_lower U line) kw =
     map_option fst (find (\<lambda>(section, keywords). matches_keywords U keywords line) kw)"
  by (induction kw) (auto simp only: detect_loop.simps keywords_found find.simps
        option.map fst_conv split: prod.split if_split)

lemma detect_section_heading:
  "detect_section U kw line \<noteq> None \<longleftrightarrow> is_heading U kw line"
  unfolding detect_section_def detect_loop_find is_heading_def
  by (auto simp: find_None_iff)

lemma detect_section_name:
  "detect_section U kw line = Some section \<Longrightarrow> section \<in> fst ` set kw"
  unfolding detect_section_def detect_loop_find
  by (auto simp: find_Some_iff) (metis fst_conv nth_mem image_eqI)

lemma detect_loop_Cons:
  "detect_loop U (u_lower U line) ((sname, kws) # kw) =
     (if matches_keywords U kws line then Some sname else detect_loop U (u_lower U line) kw)"
  by (simp only: detect_loop.simps keywords_found)

lemma detect_section_first:
  assumes "distinct (map fst kw)"
  shows "detect_section U kw line = find (matches_section U kw line) (map fst kw)"
  using assms
proof (induction kw)
  case Nil
  then show ?case by (simp add: detect_section_def)
next
  case (Cons entry kw)
  obtain sname kws where entry: "entry = (sname, kws)" by (cases entry)
  have notin: "sname \<notin> fst ` set kw" and dist: "distinct (map fst kw)"
    using Cons.prems entry by auto
  have same: "find (matches_section U (entry # kw) line) (map fst kw)
              = find (matches_section U kw line) (map fst kw)"
  proof (rule find_cong [OF refl])
    fix x assume "x \<in> set (map fst kw)"
    then have "x \<noteq> sname" using notin by auto
    then show "matches_section U (entry # kw) line x = matches_section U kw line x"
      by (simp add: matches_section_def entry)
  qed
  have here: "matches_section U (entry # kw) line sname = matches_keywords U kws line"
    by (simp add: matches_section_def entry)
  show ?case
    using Cons.IH [OF dist] same here
    by (simp add: detect_section_def entry detect_loop_Cons del: detect_loop.simps)
qed

lemma section_names:
  "map fst SECTION_KEYWORDS = [''experience'', ''education'', ''skills'', ''projects'', ''summary'']"
  by (simp add: SECTION_KEYWORDS_def)

section \<open>The buckets of the segmenter\<close>

lemma detect_section_None:
  "detect_section U kw line = None \<longleftrightarrow> \<not> is_heading U kw line"
  using detect_section_heading [of U kw line] by blast

lemma dom_append_line: "dom (append_line secs current line) = insert current (dom secs)"
  by (simp add: append_line_def)

lemma dom_split_loop:
  "current \<in> dom secs \<Longrightarrow> fst ` set kw \<subseteq> dom secs \<Longrightarrow>
   dom (split_loop U kw current secs lines) = dom secs"
proof (induction lines arbitrary: current secs)
  case Nil
  then show ?case by simp
next
  case (Cons line lines)
  have keep: "dom (append_line secs current line) = dom secs"
    using Cons.prems(1) by (auto simp: dom_append_line)
  show ?case
  proof (cases "detect_section U kw line")
    case None
    then show ?thesis using Cons.IH [of current "append_line secs current line"] Cons.prems keep
      by simp
  next
    case (Some detected)
    then have "detected \<in> dom secs"
      using detect_section_name Cons.prems(2) by blast
    then show ?thesis
      using Some Cons.IH [of current "append_line secs current line"]
        Cons.IH [of detected secs] Cons.prems keep
      by simp
  qed
qed

lemma dom_initial_sections: "dom (initial_sections kw) = insert ''header'' (fst ` set kw)"
proof -
  have "fst ` set (map (\<lambda>(key, _). (key, []::ustr list)) kw) = fst ` set kw"
    by (induction kw) auto
  then show ?thesis
    by (simp add: initial_sections_def dom_map_of_conv_image_fst)
qed

lemma dom_split_sections:
  "dom (split_sections U kw lines) = insert ''header'' (fst ` set kw)"
  unfolding split_sections_def
  using dom_split_loop [of "''header''" "initial_sections kw" kw U lines]
  by (auto simp: dom_initial_sections)

lemma nth_filter_upt_Suc:
  "map ((!) (x # xs)) (filter P [0..<Suc n]) =
     (if P 0 then [x] else []) @ map ((!) xs) (filter (\<lambda>i. P (Suc i)) [0..<n])"
proof -
  have "[0..<Suc n] = 0 # map Suc [0..<n]"
    by (simp add: upt_conv_Cons map_Suc_upt del: upt_Suc)
  then show ?thesis
    by (simp add: filter_map comp_def del: upt_Suc)
qed

lemma split_loop_buckets:
  assumes "[] \<notin> fst ` set kw"
  shows "get_section (split_loop U kw current secs lines) key =
     get_section secs key @
     map ((!) lines)
       (filter (\<lambda>i. detect_section U kw (lines ! i) = None
                    \<and> foldl (cursor_step U kw) current (take i lines) = key)
          [0..<length lines])"
proof (induction lines arbitrary: current secs)
  case Nil
  then show ?case by simp
next
  case (Cons line lines)
  show ?case
  proof (cases "detect_section U kw line")
    case None
    then show ?thesis
      using Cons.IH [of current "append_line secs current line"]
      by (simp add: nth_filter_upt_Suc get_section_append_line cursor_step_def del: upt_Suc)
  next
    case (Some detected)
    then have "detected \<noteq> []"
      using detect_section_name assms by metis
    then show ?thesis
      using Some Cons.IH [of detected secs]
      by (simp add: nth_filter_upt_Suc cursor_step_def del: upt_Suc)
  qed
qed

lemma split_sections_buckets:
  assumes "[] \<notin> fst ` set kw"
  shows "get_section (split_sections U kw lines) key =
     map ((!) lines)
       (filter (\<lambda>i. \<not> is_heading U kw (lines ! i) \<and> cursor_after U kw (take i lines) = key)
          [0..<length lines])"
  using split_loop_buckets [OF assms, of U "''header''" "initial_sections kw" lines key]
  by (simp add: split_sections_def get_initial_sections cursor_after_def detect_section_None)

lemma split_loop_leaves_header:
  "''header'' \<notin> fst ` set kw \<Longrightarrow> current \<noteq> ''header'' \<Longrightarrow>
   get_section (split_loop U kw current secs lines) ''header'' = get_section secs ''header''"
proof (induction lines arbitrary: current secs)
  case Nil
  then show ?case by simp
next
  case (Cons line lines)
  show ?case
  proof (cases "detect_section U kw line")
    case None
    then show ?thesis
      using Cons.IH [of current "append_line secs current line"] Cons.prems
      by (simp add: get_section_append_line)
  next
    case (Some detected)
    then have "detected \<noteq> ''header''"
      using detect_section_name Cons.prems(1) by metis
    then show ?thesis
      using Some Cons.IH [of current "append_line secs current line"]
        Cons.IH [of detected secs] Cons.prems
      by (simp add: get_section_append_line)
  qed
qed

lemma split_loop_header:
  assumes "''header'' \<notin> fst ` set kw" and "[] \<notin> fst ` set kw"
  shows "get_section (split_loop U kw ''header'' secs lines) ''header'' =
     get_section secs ''header'' @ takeWhile (\<lambda>line. detect_section U kw line = None) lines"
proof (induction lines arbitrary: secs)
  case Nil
  then show ?case by simp
next
  case (Cons line lines)
  show ?case
  proof (cases "detect_section U kw line")
    case None
    then show ?thesis
      using Cons.IH [of "append_line secs ''header'' line"]
      by (simp add: get_section_append_line)
  next
    case (Some detected)
    then have "detected \<noteq> ''header''" "detected \<noteq> []"
      using detect_section_name assms by metis+
    then show ?thesis
      using Some split_loop_leaves_header [OF assms(1), of detected U secs lines]
      by simp
  qed
qed

lemma split_sections_header:
  assumes "''header'' \<notin> fst ` set kw" and "[] \<notin> fst ` set kw"
  shows "get_section (split_sections U kw lines) ''header'' =
     takeWhile (\<lambda>line. \<not> is_heading U kw line) lines"
  using split_loop_header [OF assms, of U "initial_sections kw" lines]
  by (simp add: split_sections_def get_initial_sections detect_section_None)

lemma cursor_in_keys:
  "current \<in> K \<Longrightarrow> fst ` set kw \<subseteq> K \<Longrightarrow> foldl (cursor_step U kw) current before \<in> K"
proof (induction before arbitrary: current)
  case Nil
  then show ?case by simp
next
  case (Cons line before)
  have "cursor_step U kw current line \<in> K"
    using Cons.prems detect_section_name [of U kw line]
    by (auto simp: cursor_step_def split: option.splits)
  then show ?case using Cons.IH Cons.prems(2) by simp
qed

lemma section_names_set:
  "fst ` set SECTION_KEYWORDS =
     {''experience'', ''education'', ''skills'', ''projects'', ''summary''}"
  using section_names by (metis list.set_map list.simps(15) empty_set)

section \<open>The segmenter\<close>

lemma header_not_a_section:
  "''header'' \<notin> fst ` set SECTION_KEYWORDS" "[] \<notin> fst ` set SECTION_KEYWORDS"
  unfolding section_names_set by simp_all

text \<open>
  Claim C4: a line is classified as a heading exactly when some keyword of the table
  occurs in the lower-cased line as a whole word; the result always has the six keys
  \<open>header\<close>, \<open>experience\<close>, \<open>education\<close>, \<open>skills\<close>, \<open>projects\<close> and \<open>summary\<close>; the
  bucket of a key holds, in document order, exactly the lines that are no heading and
  stand where the section cursor (initially \<open>header\<close>, then the section of the last
  heading read) equals the key, so a heading is in no bucket and every other line is in
  exactly one; the \<open>header\<close> bucket is the content before the first heading; and the
  cursor is always one of the six keys.
\<close>

theorem segmenter_buckets:
  fixes U doc
  defines "secs \<equiv> split_sections U SECTION_KEYWORDS doc"
  shows "(\<forall>line. (detect_section U SECTION_KEYWORDS line \<noteq> None)
                  = is_heading U SECTION_KEYWORDS line)
     \<and> dom secs = {''header'', ''experience'', ''education'', ''skills'', ''projects'',
                    ''summary''}
     \<and> (\<forall>key. get_section secs key =
           map ((!) doc)
             (filter (\<lambda>i. \<not> is_heading U SECTION_KEYWORDS (doc ! i)
                          \<and> cursor_after U SECTION_KEYWORDS (take i doc) = key)
                [0..<length doc]))
     \<and> get_section secs ''header''
         = takeWhile (\<lambda>line. \<not> is_heading U SECTION_KEYWORDS line) doc
     \<and> (\<forall>before. cursor_after U SECTION_KEYWORDS before
           \<in> {''header'', ''experience'', ''education'', ''skills'', ''projects'',
               ''summary''})"
proof -
  have a: "\<forall>line. (detect_section U SECTION_KEYWORDS line \<noteq> None)
                  = is_heading U SECTION_KEYWORDS line"
    using detect_section_heading by blast
  have b: "dom secs = {''header'', ''experience'', ''education'', ''skills'', ''projects'',
                    ''summary''}"
    unfolding secs_def dom_split_sections section_names_set by simp
  have c: "\<forall>key. get_section secs key =
           map ((!) doc)
             (filter (\<lambda>i. \<not> is_heading U SECTION_KEYWORDS (doc ! i)
                          \<and> cursor_after U SECTION_KEYWORDS (take i doc) = key)
                [0..<length doc])"
    unfolding secs_def using split_sections_buckets [OF header_not_a_section(2)] by blast
  have d: "get_section secs ''header''
         = takeWhile (\<lambda>line. \<not> is_heading U SECTION_KEYWORDS line) doc"
    unfolding secs_def by (rule split_sections_header [OF header_not_a_section])
  have e: "\<forall>before. cursor_after U SECTION_KEYWORDS before
           \<in> {''header'', ''experience'', ''education'', ''skills'', ''projects'',
               ''summary''}"
  proof
    fix before
    show "cursor_after U SECTION_KEYWORDS before
           \<in> {''header'', ''experience'', ''education'', ''skills'', ''projects'',
               ''summary''}"
      unfolding cursor_after_def
      by (rule cursor_in_keys) (simp_all add: section_names_set)
  qed
  show ?thesis
    apply (intro conjI)
        apply (rule a)
       apply (rule b)
      apply (rule c)
     apply (rule d)
    apply (rule e)
    done
qed

lemma segmenter_example:
  "detect_section latin1 SECTION_KEYWORDS (asc ''SKILLS'') = Some ''skills''
   \<and> get_section
       (split_sections latin1 SECTION_KEYWORDS
          [asc ''Jane Doe'', asc ''Work History'', asc ''Acme'', asc ''SKILLS'', asc ''Python''])
       ''experience'' = [asc ''Acme'']"
  by code_simp

theorem segmenter_buckets_witness:
  "is_heading latin1 SECTION_KEYWORDS (asc ''SKILLS'')
   \<and> get_section
       (split_sections latin1 SECTION_KEYWORDS
          [asc ''Jane Doe'', asc ''Work History'', asc ''Acme'', asc ''SKILLS'', asc ''Python''])
       ''experience'' = [asc ''Acme'']
   \<and> dom (split_sections latin1 SECTION_KEYWORDS
          [asc ''Jane Doe'', asc ''Work History'', asc ''Acme'', asc ''SKILLS'', asc ''Python''])
       = {''header'', ''experience'', ''education'', ''skills'', ''projects'', ''summary''}"
  using segmenter_buckets [of latin1
          "[asc ''Jane Doe'', asc ''Work History'', asc ''Acme'', asc ''SKILLS'', asc ''Python'']"]
    segmenter_example
  by (metis option.distinct(1))

text \<open>
  Claim C5: the section a line is detected as is the first section, in the declared
  order experience, education, skills, projects, summary, that the line matches; a
  line that matches several sections resolves to the one declared first.
\<close>

theorem first_declared_section_wins:
  "detect_section U SECTION_KEYWORDS line =
     find (matches_section U SECTION_KEYWORDS line)
       [''experience'', ''education'', ''skills'', ''projects'', ''summary'']"
proof -
  have "distinct (map fst SECTION_KEYWORDS)"
    unfolding section_names by simp
  then show ?thesis
    using detect_section_first [of SECTION_KEYWORDS U line] by (simp only: section_names)
qed

lemma two_sections_example:
  "detect_section latin1 SECTION_KEYWORDS (asc ''Education and Experience'') = Some ''experience''"
  by code_simp

theorem first_declared_section_wins_witness:
  "detect_section latin1 SECTION_KEYWORDS (asc ''Education and Experience'') = Some ''experience''
   \<and> find (matches_section latin1 SECTION_KEYWORDS (asc ''Education and Experience''))
       [''experience'', ''education'', ''skills'', ''projects'', ''summary'']
     = Some ''experience''"
  using first_declared_section_wins [of latin1 "asc ''Education and Experience''"]
    two_sections_example
  by simp

section \<open>Splitting, joining and stripping\<close>

lemma split_acc_not_Nil: "split_acc sep cur s \<noteq> []"
  by (induction s arbitrary: cur) auto

lemma join_Cons: "ys \<noteq> [] \<Longrightarrow> join sep (x # ys) = x @ sep @ join sep ys"
  by (cases ys) simp_all

lemma join_split_acc: "join [sep] (split_acc sep cur s) = cur @ s"
  by (induction s arbitrary: cur) (simp_all add: join_Cons split_acc_not_Nil)

lemma split_acc_pieces:
  "sep \<notin> set cur \<Longrightarrow> \<forall>piece\<in>set (split_acc sep cur s). sep \<notin> set piece"
proof (induction s arbitrary: cur)
  case Nil
  then show ?case by simp
next
  case (Cons c s)
  show ?case
  proof (cases "c = sep")
    case True
    then show ?thesis using Cons.IH [of "[]"] Cons.prems by simp
  next
    case False
    then show ?thesis using Cons.IH [of "cur @ [c]"] Cons.prems by simp
  qed
qed

lemma split_char_pieces:
  "join [sep] (split_char sep s) = s \<and> (\<forall>piece\<in>set (split_char sep s). sep \<notin> set piece)"
  using join_split_acc [of sep "[]" s] split_acc_pieces [of sep "[]" s]
  by (simp add: split_char_def)

lemma strip_chars_parts:
  "\<exists>a b. s = a @ strip_chars cs s @ b \<and> set a \<subseteq> set cs \<and> set b \<subseteq> set cs
         \<and> (strip_chars cs s = []
            \<or> hd (strip_chars cs s) \<notin> set cs \<and> last (strip_chars cs s) \<notin> set cs)"
proof -
  let ?P = "\<lambda>c. c \<in> set cs"
  let ?t = "dropWhile ?P s"
  let ?u = "rev (dropWhile ?P (rev ?t))"
  have u: "strip_chars cs s = ?u" by (simp add: strip_chars_def)
  have 1: "s = takeWhile ?P s @ ?t" by simp
  have 2: "?t = ?u @ rev (takeWhile ?P (rev ?t))"
    by (metis rev_append rev_rev_ident takeWhile_dropWhile_id)
  have a: "set (takeWhile ?P s) \<subseteq> set cs"
    using set_takeWhileD by fastforce
  have b: "set (rev (takeWhile ?P (rev ?t))) \<subseteq> set cs"
    using set_takeWhileD by fastforce
  have hd: "?u \<noteq> [] \<Longrightarrow> hd ?u \<notin> set cs"
    using dropWhile_rev_dropWhile [of ?P s] by (metis dropWhile_eq_self_iff)
  have last: "?u \<noteq> [] \<Longrightarrow> last ?u \<notin> set cs"
  proof -
    assume ne: "?u \<noteq> []"
    then have "dropWhile ?P (rev ?t) \<noteq> []" by simp
    then have "\<not> ?P (hd (dropWhile ?P (rev ?t)))" by (rule hd_dropWhile)
    then show ?thesis using ne by (simp add: last_rev)
  qed
  have "s = takeWhile ?P s @ ?u @ rev (takeWhile ?P (rev ?t))"
    using 1 2 by metis
  then show ?thesis
    unfolding u using a b hd last by blast
qed

lemma contains_iff: "contains sub s \<longleftrightarrow> (\<exists>pre post. s = pre @ sub @ post)"
proof (induction s)
  case Nil
  then show ?case by auto
next
  case (Cons c s)
  show ?case
  proof
    assume "contains sub (c # s)"
    then consider "prefix sub (c # s)" | "contains sub s" by auto
    then show "\<exists>pre post. c # s = pre @ sub @ post"
    proof cases
      case 1
      then obtain post where "c # s = sub @ post" by (auto simp: prefix_def)
      then show ?thesis by (intro exI [of _ "[]"] exI [of _ post]) simp
    next
      case 2
      then obtain pre post where "s = pre @ sub @ post" using Cons.IH by blast
      then show ?thesis by (intro exI [of _ "c # pre"] exI [of _ post]) simp
    qed
  next
    assume "\<exists>pre post. c # s = pre @ sub @ post"
    then obtain pre post where p: "c # s = pre @ sub @ post" by blast
    show "contains sub (c # s)"
    proof (cases pre)
      case Nil
      with p have "prefix sub (c # s)" unfolding prefix_def by auto
      then show ?thesis by simp
    next
      case (Cons x pre')
      with p have "s = pre' @ sub @ post" by simp
      then show ?thesis using Cons.IH by auto
    qed
  qed
qed

lemma split_once_first:
  assumes "sep \<in> set s"
  shows "\<exists>left right. s = left @ [sep] @ right \<and> sep \<notin> set left
           \<and> split_once sep s = [left, right]"
proof -
  let ?P = "\<lambda>c. c \<noteq> sep"
  have ne: "dropWhile ?P s \<noteq> []" using assms by (simp add: dropWhile_eq_Nil_conv) 
  then have "hd (dropWhile ?P s) = sep" using hd_dropWhile [of ?P s] by simp
  with ne have d: "dropWhile ?P s = sep # tl (dropWhile ?P s)"
    by (metis list.collapse)
  have "s = takeWhile ?P s @ dropWhile ?P s" by simp
  with d have "s = takeWhile ?P s @ [sep] @ tl (dropWhile ?P s)" by (metis append_Cons append_Nil)
  moreover have "sep \<notin> set (takeWhile ?P s)" using set_takeWhileD by fastforce
  ultimately show ?thesis using assms unfolding split_once_def by auto
qed

section \<open>The date splitter\<close>

lemma dash_rx_ends:
  "rx_ends U dash_rx (prev, c # t) =
     (if c = 45 then [(Some 45, t)] else []) @ (if c = 8211 then [(Some 8211, t)] else [])"
  by (simp add: dash_rx_def asc_def)

lemma split_from_dash:
  "split_from U dash_rx prev cur (c # t) =
     (if is_dash c then cur # split_from U dash_rx (Some c) [] t
      else split_from U dash_rx (Some c) (cur @ [c]) t)"
  by (simp add: dash_rx_ends is_dash_def)

lemma split_from_no_dash:
  "filter is_dash s = [] \<Longrightarrow> split_from U dash_rx prev cur s = [cur @ s]"
proof (induction s arbitrary: prev cur)
  case Nil
  then show ?case by simp
next
  case (Cons c s)
  then have "\<not> is_dash c" "filter is_dash s = []" by (auto split: if_splits)
  then show ?case using Cons.IH [of "Some c" "cur @ [c]"]
    by (simp add: split_from_dash del: split_from.simps)
qed

lemma split_from_first_dash:
  "filter is_dash a = [] \<Longrightarrow> is_dash c \<Longrightarrow>
   split_from U dash_rx prev cur (a @ c # b) = (cur @ a) # split_from U dash_rx (Some c) [] b"
proof (induction a arbitrary: prev cur)
  case Nil
  then show ?case by (simp add: split_from_dash del: split_from.simps)
next
  case (Cons x a)
  then have "\<not> is_dash x" "filter is_dash a = []" by (auto split: if_splits)
  then show ?case using Cons.IH [of "Some x" "cur @ [x]"] Cons.prems
    by (simp add: split_from_dash del: split_from.simps)
qed

lemma length_split_from_dash:
  "length (split_from U dash_rx prev cur s) = Suc (length (filter is_dash s))"
  by (induction s arbitrary: prev cur) (simp_all add: split_from_dash del: split_from.simps(2))

lemma re_split_one_dash:
  assumes "length (filter is_dash d) = 1"
  shows "\<exists>a c b. d = a @ [c] @ b \<and> is_dash c \<and> re_split U dash_rx d = [a, b]"
proof -
  have "\<exists>x\<in>set d. is_dash x"
  proof (rule ccontr)
    assume "\<not> (\<exists>x\<in>set d. is_dash x)"
    then have "filter is_dash d = []" by simp
    with assms show False by simp
  qed
  from split_list_first_prop [OF this]
  obtain a c b where d: "d = a @ c # b" "is_dash c" "\<forall>y\<in>set a. \<not> is_dash y"
    by blast
  then have fa: "filter is_dash a = []" by simp
  have "filter is_dash d = c # filter is_dash b"
    unfolding d(1) using fa d(2) by simp
  with assms have fb: "filter is_dash b = []" by simp
  have "split_from U dash_rx None [] (a @ c # b) = [a, b]"
    using split_from_first_dash [OF fa d(2), of U None "[]" b]
      split_from_no_dash [OF fb, of U "Some c" "[]"]
    by (simp del: split_from.simps)
  then have r: "re_split U dash_rx d = [a, b]"
    unfolding re_split_def d(1) .
  have "d = a @ [c] @ b" using d(1) by simp
  with d(2) r show ?thesis by blast
qed

lemma re_split_not_one_dash:
  "length (filter is_dash d) \<noteq> 1 \<Longrightarrow> length (re_split U dash_rx d) \<noteq> 2"
  by (simp add: re_split_def length_split_from_dash)

lemma case_two_other:
  "length xs \<noteq> 2 \<Longrightarrow> (case xs of [] \<Rightarrow> g | [a] \<Rightarrow> g | [a, b] \<Rightarrow> f a b | a # b # c # ys \<Rightarrow> g) = g"
  by (auto split: list.split)

section \<open>The fields of an experience block\<close>

lemma experience_from_block_eq:
  "experience_from_block U (header # rest) =
     Inr \<lparr> role = strip U
                     (snd (if 45 \<in> set header
                           then (case map (strip U) (split_once 45 header) of
                                   [left, right] \<Rightarrow> (Some left, right)
                                 | _ \<Rightarrow> (None, header))
                           else (None, header))),
           company = fst (if 45 \<in> set header
                           then (case map (strip U) (split_once 45 header) of
                                   [left, right] \<Rightarrow> (Some left, right)
                                 | _ \<Rightarrow> (None, header))
                           else (None, header)),
           start_date =
             (case re_search U (date_pattern U) header of
                None \<Rightarrow> None
              | Some date_text \<Rightarrow>
                  (case re_split U dash_rx date_text of
                     [a, b] \<Rightarrow> Some (strip U a) | _ \<Rightarrow> None)),
           end_date =
             (case re_search U (date_pattern U) header of
                None \<Rightarrow> None
              | Some date_text \<Rightarrow>
                  (case re_split U dash_rx date_text of
                     [a, b] \<Rightarrow> Some (strip U b) | _ \<Rightarrow> None)),
           summary = None,
           highlights =
             map (strip_chars (asc ''- ''))
               (filter (\<lambda>line. strip U line \<noteq> [])
                  (case re_search U (date_pattern U) header of
                     None \<Rightarrow> rest
                   | Some date_text \<Rightarrow>
                       filter (\<lambda>line. \<not> contains date_text line) rest)) \<rparr>"
  by (simp add: Let_def split: prod.split option.split list.split)

lemma block_example:
  assumes "agrees_latin1 U"
  shows "experience_from_block U [asc ''Acme Corp - Senior Engineer (2019 - 2022)'']
     = Inr \<lparr> role = asc ''Senior Engineer (2019 - 2022)'',
             company = Some (asc ''Acme Corp''),
             start_date = Some (asc ''2019''),
             end_date = Some (asc ''2022''),
             summary = None,
             highlights = [] \<rparr>"
  using assms
  by (simp add: asc_def re_search_def re_split_def date_pattern_def dash_rx_def split_once_def
        strip_def agrees_simps latin1_def latin1_lower_def Let_def)

text \<open>
  Claim C6 as stated fails where it says that a date found in the header is split into
  the start and the end date. The header \<open>Engineer (2019-01 - 2020-12)\<close> has the date
  text \<open>2019-01 - 2020\<close>, which the splitter cuts into three pieces, and the header
  \<open>2019 to 2022\<close> has a date text without any dash: in both the date is found and both
  dates stay absent.
\<close>

theorem date_not_split_counterexample:
  "re_search latin1 (date_pattern latin1) (asc ''Engineer (2019-01 - 2020-12)'')
     = Some (asc ''2019-01 - 2020'')
   \<and> experience_from_block latin1 [asc ''Engineer (2019-01 - 2020-12)'']
     = Inr \<lparr> role = asc ''01 - 2020-12)'', company = Some (asc ''Engineer (2019''),
             start_date = None, end_date = None, summary = None, highlights = [] \<rparr>
   \<and> re_search latin1 (date_pattern latin1) (asc ''2019 to 2022'')
     = Some (asc ''2019 to 2022'')
   \<and> experience_from_block latin1 [asc ''2019 to 2022'']
     = Inr \<lparr> role = asc ''2019 to 2022'', company = None,
             start_date = None, end_date = None, summary = None, highlights = [] \<rparr>"
  by code_simp

text \<open>
  Claim C6, amended: a block with a first line always gives an item. If the header has
  a hyphen, the company is the stripped text before the first hyphen and the role the
  stripped text after it; otherwise the company is absent and the role is the stripped
  header. Independently, if the date pattern is found in the header, every remaining
  line that contains the date text is removed from the highlight candidates, and the
  start and end date are the stripped texts before and after the dash when the date
  text has exactly one hyphen or en dash; with no dash or more than one, both dates
  stay absent. Without a date, no line is removed and both dates are absent. The
  highlights are the remaining non-blank lines, stripped of hyphens and spaces at both
  ends. In particular, for every character table that agrees with CPython on Latin-1,
  the header \<open>Acme Corp - Senior Engineer (2019 - 2022)\<close> gives the company
  \<open>Acme Corp\<close>, the role \<open>Senior Engineer (2019 - 2022)\<close> and the dates \<open>2019\<close> and
  \<open>2022\<close>.
\<close>

theorem experience_block_fields:
  "(\<exists>item. experience_from_block U (header # rest) = Inr item
      \<and> summary item = None
      \<and> (45 \<in> set header \<longrightarrow>
           (\<exists>left right. header = left @ [45] @ right \<and> 45 \<notin> set left
              \<and> company item = Some (strip U left) \<and> role item = strip U right))
      \<and> (45 \<notin> set header \<longrightarrow> company item = None \<and> role item = strip U header)
      \<and> (re_search U (date_pattern U) header = None \<longrightarrow>
           start_date item = None \<and> end_date item = None
           \<and> highlights item =
               map (strip_chars (asc ''- '')) (filter (\<lambda>line. strip U line \<noteq> []) rest))
      \<and> (\<forall>date_text. re_search U (date_pattern U) header = Some date_text \<longrightarrow>
           highlights item =
             map (strip_chars (asc ''- ''))
               (filter (\<lambda>line. strip U line \<noteq> [])
                  (filter (\<lambda>line. \<not> (\<exists>pre post. line = pre @ date_text @ post)) rest))
           \<and> (length (filter is_dash date_text) = 1 \<longrightarrow>
                (\<exists>a c b. date_text = a @ [c] @ b \<and> is_dash c
                   \<and> start_date item = Some (strip U a) \<and> end_date item = Some (strip U b)))
           \<and> (length (filter is_dash date_text) \<noteq> 1 \<longrightarrow>
                start_date item = None \<and> end_date item = None)))
   \<and> (agrees_latin1 U \<longrightarrow>
        experience_from_block U [asc ''Acme Corp - Senior Engineer (2019 - 2022)'']
          = Inr \<lparr> role = asc ''Senior Engineer (2019 - 2022)'',
                  company = Some (asc ''Acme Corp''),
                  start_date = Some (asc ''2019''),
                  end_date = Some (asc ''2022''),
                  summary = None,
                  highlights = [] \<rparr>)"
proof -
  obtain item where item: "experience_from_block U (header # rest) = Inr item"
    using experience_from_block_Cons by blast
  note eq = item [unfolded experience_from_block_eq, simplified, symmetric]
  have s: "summary item = None"
    by (subst eq) simp
  have hy: "45 \<in> set header \<longrightarrow>
           (\<exists>left right. header = left @ [45] @ right \<and> 45 \<notin> set left
              \<and> company item = Some (strip U left) \<and> role item = strip U right)"
  proof
    assume h: "45 \<in> set header"
    from split_once_first [OF h] obtain left right where
      lr: "header = left @ [45] @ right" "45 \<notin> set left" "split_once 45 header = [left, right]"
      by blast
    have "company item = Some (strip U left)" "role item = strip U right"
      by (subst eq, simp add: h lr(3) strip_idem)+
    with lr show "\<exists>left right. header = left @ [45] @ right \<and> 45 \<notin> set left
              \<and> company item = Some (strip U left) \<and> role item = strip U right"
      by blast
  qed
  have hn: "45 \<notin> set header \<longrightarrow> company item = None \<and> role item = strip U header"
  proof
    assume h: "45 \<notin> set header"
    have "company item = None" "role item = strip U header"
      by (subst eq, simp add: h)+
    then show "company item = None \<and> role item = strip U header" by simp
  qed
  have dn: "re_search U (date_pattern U) header = None \<longrightarrow>
           start_date item = None \<and> end_date item = None
           \<and> highlights item =
               map (strip_chars (asc ''- '')) (filter (\<lambda>line. strip U line \<noteq> []) rest)"
  proof
    assume n: "re_search U (date_pattern U) header = None"
    have "start_date item = None" "end_date item = None"
      "highlights item =
         map (strip_chars (asc ''- '')) (filter (\<lambda>line. strip U line \<noteq> []) rest)"
      by (subst eq, simp add: n)+
    then show "start_date item = None \<and> end_date item = None
           \<and> highlights item =
               map (strip_chars (asc ''- '')) (filter (\<lambda>line. strip U line \<noteq> []) rest)"
      by simp
  qed
  have ds: "\<forall>date_text. re_search U (date_pattern U) header = Some date_text \<longrightarrow>
           highlights item =
             map (strip_chars (asc ''- ''))
               (filter (\<lambda>line. strip U line \<noteq> [])
                  (filter (\<lambda>line. \<not> (\<exists>pre post. line = pre @ date_text @ post)) rest))
           \<and> (length (filter is_dash date_text) = 1 \<longrightarrow>
                (\<exists>a c b. date_text = a @ [c] @ b \<and> is_dash c
                   \<and> start_date item = Some (strip U a) \<and> end_date item = Some (strip U b)))
           \<and> (length (filter is_dash date_text) \<noteq> 1 \<longrightarrow>
                start_date item = None \<and> end_date item = None)"
  proof (intro allI impI conjI)
    fix date_text
    assume m: "re_search U (date_pattern U) header = Some date_text"
    show "highlights item =
             map (strip_chars (asc ''- ''))
               (filter (\<lambda>line. strip U line \<noteq> [])
                  (filter (\<lambda>line. \<not> (\<exists>pre post. line = pre @ date_text @ post)) rest))"
      by (subst eq) (simp add: m contains_iff)
    show "\<exists>a c b. date_text = a @ [c] @ b \<and> is_dash c
                   \<and> start_date item = Some (strip U a) \<and> end_date item = Some (strip U b)"
      if one: "length (filter is_dash date_text) = 1"
    proof -
      from re_split_one_dash [OF one, of U] obtain a c b where
        acb: "date_text = a @ [c] @ b" "is_dash c" "re_split U dash_rx date_text = [a, b]"
        by blast
      have "start_date item = Some (strip U a)" "end_date item = Some (strip U b)"
        by (subst eq, simp add: m acb(3))+
      with acb show ?thesis by blast
    qed
    show "start_date item = None" if other: "length (filter is_dash date_text) \<noteq> 1"
      by (subst eq) (simp add: m case_two_other [OF re_split_not_one_dash [OF other]])
    show "end_date item = None" if other: "length (filter is_dash date_text) \<noteq> 1"
      by (subst eq) (simp add: m case_two_other [OF re_split_not_one_dash [OF other]])
  qed
  have ex: "agrees_latin1 U \<longrightarrow>
        experience_from_block U [asc ''Acme Corp - Senior Engineer (2019 - 2022)'']
          = Inr \<lparr> role = asc ''Senior Engineer (2019 - 2022)'',
                  company = Some (asc ''Acme Corp''),
                  start_date = Some (asc ''2019''),
                  end_date = Some (asc ''2022''),
                  summary = None,
                  highlights = [] \<rparr>"
    using block_example by blast
  show ?thesis
    apply (rule conjI)
     apply (rule exI [of _ item])
     apply (intro conjI)
          apply (rule item)
         apply (rule s)
        apply (rule hy)
       apply (rule hn)
      apply (rule dn)
     apply (rule ds)
    apply (rule ex)
    done
qed

theorem experience_block_fields_witness:
  "agrees_latin1 latin1
   \<and> experience_from_block latin1 [asc ''Acme Corp - Senior Engineer (2019 - 2022)'']
          = Inr \<lparr> role = asc ''Senior Engineer (2019 - 2022)'',
                  company = Some (asc ''Acme Corp''),
                  start_date = Some (asc ''2019''),
                  end_date = Some (asc ''2022''),
                  summary = None,
                  highlights = [] \<rparr>"
  using experience_block_fields
          [where U = latin1 and header = "asc ''Acme Corp - Senior Engineer (2019 - 2022)''"
             and rest = "[]"]
    agrees_latin1_latin1
  by blast

section \<open>The priority of the skill delimiters\<close>

lemma skills_example:
  assumes "agrees_latin1 U"
  shows "parse_skills U [asc ''Python; Go, Rust''] = [asc ''Python'', asc ''Go, Rust'']"
  using assms
  by (simp add: parse_skills_def asc_def split_char_def strip_def agrees_simps Let_def)

text \<open>
  Claim C8 as stated fails in its last case, where it says that a line is stripped of
  leading bullet markers: the code strips hyphens and spaces at both ends of the line,
  so the line \<open>- Go -\<close> gives the skill \<open>Go\<close> and not \<open>Go -\<close>.
\<close>

theorem skills_trailing_hyphen_counterexample:
  "parse_skills latin1 [asc ''- Go -''] = [asc ''Go'']
   \<and> parse_skills latin1 [asc ''- Go -''] \<noteq> map (lstrip_chars (asc ''- '')) [asc ''- Go -'']"
  by code_simp

text \<open>
  Claim C8, amended: the skills extractor looks at the lines joined by single spaces.
  If the joined text has a semicolon, the skills are its pieces between semicolons,
  stripped, the blank ones dropped; else, if it has a comma, the same with commas; else
  every non-blank line is one skill, with every hyphen and space removed at both of its
  ends. Splitting cuts at every separator (joining the pieces with the separator gives
  the text back, and no piece contains it), and stripping a character set removes
  exactly the longest runs of its characters at the two ends. In particular, for every
  character table that agrees with CPython on Latin-1, the line \<open>Python; Go, Rust\<close>
  gives the skills \<open>Python\<close> and \<open>Go, Rust\<close>.
\<close>

theorem skills_priority:
  fixes U skill_lines
  defines "blob \<equiv> join (asc '' '') skill_lines"
  shows "(59 \<in> set blob \<longrightarrow>
           parse_skills U skill_lines =
             map (strip U) (filter (\<lambda>piece. strip U piece \<noteq> []) (split_char 59 blob)))
     \<and> (59 \<notin> set blob \<and> 44 \<in> set blob \<longrightarrow>
           parse_skills U skill_lines =
             map (strip U) (filter (\<lambda>piece. strip U piece \<noteq> []) (split_char 44 blob)))
     \<and> (59 \<notin> set blob \<and> 44 \<notin> set blob \<longrightarrow>
           parse_skills U skill_lines =
             map (strip_chars (asc ''- ''))
               (filter (\<lambda>line. strip U line \<noteq> []) skill_lines))
     \<and> (\<forall>sep s. join [sep] (split_char sep s) = s
                  \<and> (\<forall>piece\<in>set (split_char sep s). sep \<notin> set piece))
     \<and> (\<forall>cs s. \<exists>a b. s = a @ strip_chars cs s @ b \<and> set a \<subseteq> set cs \<and> set b \<subseteq> set cs
                  \<and> (strip_chars cs s = []
                     \<or> hd (strip_chars cs s) \<notin> set cs \<and> last (strip_chars cs s) \<notin> set cs))
     \<and> (agrees_latin1 U \<longrightarrow>
           parse_skills U [asc ''Python; Go, Rust''] = [asc ''Python'', asc ''Go, Rust''])"
proof -
  have a: "59 \<in> set blob \<longrightarrow>
           parse_skills U skill_lines =
             map (strip U) (filter (\<lambda>piece. strip U piece \<noteq> []) (split_char 59 blob))"
    unfolding blob_def by (simp add: parse_skills_def Let_def)
  have b: "59 \<notin> set blob \<and> 44 \<in> set blob \<longrightarrow>
           parse_skills U skill_lines =
             map (strip U) (filter (\<lambda>piece. strip U piece \<noteq> []) (split_char 44 blob))"
    unfolding blob_def by (simp add: parse_skills_def Let_def)
  have c: "59 \<notin> set blob \<and> 44 \<notin> set blob \<longrightarrow>
           parse_skills U skill_lines =
             map (strip_chars (asc ''- ''))
               (filter (\<lambda>line. strip U line \<noteq> []) skill_lines)"
    unfolding blob_def by (simp add: parse_skills_def Let_def)
  have d: "\<forall>sep s. join [sep] (split_char sep s) = s
                  \<and> (\<forall>piece\<in>set (split_char sep s). sep \<notin> set piece)"
    using split_char_pieces by blast
  have e: "\<forall>cs s. \<exists>a b. s = a @ strip_chars cs s @ b \<and> set a \<subseteq> set cs \<and> set b \<subseteq> set cs
                  \<and> (strip_chars cs s = []
                     \<or> hd (strip_chars cs s) \<notin> set cs \<and> last (strip_chars cs s) \<notin> set cs)"
    using strip_chars_parts by blast
  have f: "agrees_latin1 U \<longrightarrow>
           parse_skills U [asc ''Python; Go, Rust''] = [asc ''Python'', asc ''Go, Rust'']"
    using skills_example by blast
  show ?thesis using a b c d e f by blast
qed

theorem skills_priority_witness:
  "agrees_latin1 latin1
   \<and> parse_skills latin1 [asc ''Python; Go, Rust''] = [asc ''Python'', asc ''Go, Rust'']"
  using skills_priority [where U = latin1 and skill_lines = "[asc ''Python; Go, Rust'']"]
    agrees_latin1_latin1
  by blast

end
